theory Spec2Isabelle
  imports Main "HOL-Library.Word" "HOL-Library.Code_Target_Numeral"
begin

section \<open>The OTLP trace messages\<close>

text \<open>
  The receiver and the pdata views work on the Go structs generated from the OTLP
  protobuf schema. A Go slice is either nil or a (possibly empty) run of elements, so a
  repeated field is a list option: \<open>None\<close> is the nil slice. Enumerations are Go
  \<open>int32\<close> values and may hold numbers outside the declared names.
\<close>

type_synonym int32 = "32 word"
type_synonym int64 = "64 word"
type_synonym uint64 = "64 word"
type_synonym byte = "8 word"
type_synonym 'a slice = "'a list option"

text \<open>Go's \<open>len\<close> and \<open>range\<close> see a nil slice as an empty one.\<close>

definition elems :: "'a slice \<Rightarrow> 'a list" where
  "elems s = (case s of None \<Rightarrow> [] | Some xs \<Rightarrow> xs)"

text \<open>
  Modelled from the spec: the enumeration constants of the generated package
  \<open>otlptrace\<close> (status code UNSET, OK, ERROR; deprecated status code OK, UNKNOWN_ERROR)
  are declared outside the sources at hand; they carry their OTLP protobuf numbers.
\<close>

definition Status_STATUS_CODE_UNSET :: int32 where
  "Status_STATUS_CODE_UNSET = 0"

definition Status_STATUS_CODE_OK :: int32 where
  "Status_STATUS_CODE_OK = 1"

definition Status_STATUS_CODE_ERROR :: int32 where
  "Status_STATUS_CODE_ERROR = 2"

definition Status_DEPRECATED_STATUS_CODE_OK :: int32 where
  "Status_DEPRECATED_STATUS_CODE_OK = 0"

definition Status_DEPRECATED_STATUS_CODE_UNKNOWN_ERROR :: int32 where
  "Status_DEPRECATED_STATUS_CODE_UNKNOWN_ERROR = 2"

record Status =
  DeprecatedCode :: int32
  Message :: string
  Code :: int32

datatype AnyValue =
  NoValue
  | StringValue string
  | BoolValue bool
  | IntValue int64
  | DoubleValue uint64

record KeyValue =
  Key :: string
  Val :: AnyValue

record Span =
  TraceId :: "byte list"
  SpanId :: "byte list"
  SpanName :: string
  Kind :: int32
  StartTimeUnixNano :: uint64
  EndTimeUnixNano :: uint64
  Attributes :: "KeyValue slice"
  Status :: Status

record InstrumentationLibrary =
  LibraryName :: string
  LibraryVersion :: string

record Resource =
  ResourceAttributes :: "KeyValue slice"

record InstrumentationLibrarySpans =
  InstrumentationLibrary :: InstrumentationLibrary
  Spans :: "Span slice"

record ResourceSpans =
  Resource :: Resource
  InstrumentationLibrarySpans :: "InstrumentationLibrarySpans slice"

record ExportTraceServiceRequest =
  ResourceSpans :: "ResourceSpans slice"

text \<open>\<open>pdata.Traces\<close> wraps a pointer to the request; \<open>Traces{}\<close> holds the nil pointer.\<close>

record Traces =
  orig :: "ExportTraceServiceRequest option"

datatype panic = NilDereference | IndexOutOfRange | SliceBoundsOutOfRange | TypeAssertion

datatype error = Error string

text \<open>
  The zero value of each message: what a freshly allocated struct holds. An identifier
  is a fixed array of 16 bytes (trace) or 8 bytes (span).
\<close>

definition zero_Status :: Status where
  "zero_Status = \<lparr>DeprecatedCode = 0, Message = [], Code = 0\<rparr>"

definition zero_KeyValue :: KeyValue where
  "zero_KeyValue = \<lparr>Key = [], Val = NoValue\<rparr>"

definition zero_InstrumentationLibrary :: InstrumentationLibrary where
  "zero_InstrumentationLibrary = \<lparr>LibraryName = [], LibraryVersion = []\<rparr>"

definition zero_Resource :: Resource where
  "zero_Resource = \<lparr>ResourceAttributes = None\<rparr>"

definition zero_Span :: Span where
  "zero_Span = \<lparr>TraceId = replicate 16 0, SpanId = replicate 8 0, SpanName = [], Kind = 0,
                StartTimeUnixNano = 0, EndTimeUnixNano = 0, Attributes = None,
                Status = zero_Status\<rparr>"

definition zero_InstrumentationLibrarySpans :: InstrumentationLibrarySpans where
  "zero_InstrumentationLibrarySpans =
     \<lparr>InstrumentationLibrary = zero_InstrumentationLibrary, Spans = None\<rparr>"

definition zero_ResourceSpans :: ResourceSpans where
  "zero_ResourceSpans = \<lparr>Resource = zero_Resource, InstrumentationLibrarySpans = None\<rparr>"

section \<open>pdata: status codes of the view\<close>

definition StatusCodeUnset :: int32 where
  "StatusCodeUnset = Status_STATUS_CODE_UNSET"

definition StatusCodeOk :: int32 where
  "StatusCodeOk = Status_STATUS_CODE_OK"

definition StatusCodeError :: int32 where
  "StatusCodeError = Status_STATUS_CODE_ERROR"

text \<open>
  \<open>SpanStatus.SetCode\<close>: the view writes through to the wrapped status, so the model
  takes the status and returns it updated. The switch has no default branch.
\<close>

definition SetCode :: "Status \<Rightarrow> int32 \<Rightarrow> Status" where
  "SetCode ms v =
     (let ms1 = ms\<lparr>Code := v\<rparr> in
      if v = StatusCodeUnset \<or> v = StatusCodeOk
        then ms1\<lparr>DeprecatedCode := Status_DEPRECATED_STATUS_CODE_OK\<rparr>
      else if v = StatusCodeError
        then ms1\<lparr>DeprecatedCode := Status_DEPRECATED_STATUS_CODE_UNKNOWN_ERROR\<rparr>
      else ms1)"

section \<open>pdata: sequence views and the span count\<close>

text \<open>
  Modelled from the spec: the generated slice views (\<open>ResourceSpansSlice\<close> and its
  kin) are outside the sources at hand. \<open>Len()\<close> on an empty or unset sequence
  returns 0 and never fails; \<open>At(i)\<close> out of range is a contract violation that fails
  fast.
\<close>

definition Len :: "'a slice \<Rightarrow> nat" where
  "Len es = length (elems es)"

definition At :: "'a slice \<Rightarrow> nat \<Rightarrow> panic + 'a" where
  "At es i = (if i < length (elems es) then Inr (elems es ! i) else Inl IndexOutOfRange)"

text \<open>
  \<open>Traces.ResourceSpans\<close> takes the address of a field of \<open>td.orig\<close>, which panics
  on the nil pointer of an invalid \<open>Traces\<close>.
\<close>

definition Traces_ResourceSpans :: "Traces \<Rightarrow> panic + ResourceSpans slice" where
  "Traces_ResourceSpans td =
     (case orig td of None \<Rightarrow> Inl NilDereference | Some req \<Rightarrow> Inr (ResourceSpans req))"

text \<open>The inner loop of \<open>Traces.SpanCount\<close>, over \<open>j\<close>, with the running count.\<close>

function SpanCount_ilss ::
  "InstrumentationLibrarySpans slice \<Rightarrow> nat \<Rightarrow> nat \<Rightarrow> panic + nat" where
  "SpanCount_ilss ilss j spanCount =
     (if j < Len ilss then
        (case At ilss j of
           Inl p \<Rightarrow> Inl p
         | Inr ils \<Rightarrow> SpanCount_ilss ilss (j + 1) (spanCount + Len (Spans ils)))
      else Inr spanCount)"
  by pat_completeness auto
termination
  by (relation "measure (\<lambda>(ilss, j, spanCount). Len ilss - j)") auto

declare SpanCount_ilss.simps [simp del]

text \<open>The outer loop, over \<open>i\<close>.\<close>

function SpanCount_rss :: "ResourceSpans slice \<Rightarrow> nat \<Rightarrow> nat \<Rightarrow> panic + nat" where
  "SpanCount_rss rss i spanCount =
     (if i < Len rss then
        (case At rss i of
           Inl p \<Rightarrow> Inl p
         | Inr rs \<Rightarrow>
             (case SpanCount_ilss (InstrumentationLibrarySpans rs) 0 spanCount of
                Inl p \<Rightarrow> Inl p
              | Inr c \<Rightarrow> SpanCount_rss rss (i + 1) c))
      else Inr spanCount)"
  by pat_completeness auto
termination
  by (relation "measure (\<lambda>(rss, i, spanCount). Len rss - i)") auto

declare SpanCount_rss.simps [simp del]

definition SpanCount :: "Traces \<Rightarrow> panic + nat" where
  "SpanCount td =
     (case Traces_ResourceSpans td of
        Inl p \<Rightarrow> Inl p
      | Inr rss \<Rightarrow> SpanCount_rss rss 0 0)"

text \<open>The sum the span count is specified to be: every group of every resource.\<close>

definition total_spans :: "ExportTraceServiceRequest \<Rightarrow> nat" where
  "total_spans req =
     (\<Sum>rs \<leftarrow> elems (ResourceSpans req).
        \<Sum>ils \<leftarrow> elems (InstrumentationLibrarySpans rs). length (elems (Spans ils)))"

section \<open>pdata: decoding and encoding a batch\<close>

text \<open>
  \<open>NewTraces\<close> wraps a fresh, empty request.
\<close>

definition NewTraces :: Traces where
  "NewTraces = \<lparr>orig = Some \<lparr>ResourceSpans = None\<rparr>\<rparr>"

text \<open>
  \<open>TracesFromOtlpProtoBytes\<close>. The generated \<open>Unmarshal\<close> is a parameter: it fills
  the request it is given and returns its error, so on failure the request may be left
  partly filled. The function starts it on the zero request.
\<close>

definition TracesFromOtlpProtoBytes ::
  "(ExportTraceServiceRequest \<Rightarrow> byte list \<Rightarrow> ExportTraceServiceRequest \<times> error option) \<Rightarrow>
   byte list \<Rightarrow> Traces \<times> error option" where
  "TracesFromOtlpProtoBytes Unmarshal data =
     (case Unmarshal \<lparr>ResourceSpans = None\<rparr> data of
        (req, Some err) \<Rightarrow> (\<lparr>orig = None\<rparr>, Some err)
      | (req, None) \<Rightarrow> (\<lparr>orig = Some req\<rparr>, None))"

text \<open>
  \<open>Traces.ToOtlpProtoBytes\<close> calls the generated \<open>Marshal\<close> on the wrapped pointer,
  which dereferences it.
\<close>

definition ToOtlpProtoBytes ::
  "(ExportTraceServiceRequest \<Rightarrow> byte list \<times> error option) \<Rightarrow>
   Traces \<Rightarrow> panic + (byte list \<times> error option)" where
  "ToOtlpProtoBytes Marshal td =
     (case orig td of None \<Rightarrow> Inl NilDereference | Some req \<Rightarrow> Inr (Marshal req))"

section \<open>Receiver: status conversion at ingress\<close>

text \<open>
  The body of the innermost loop of \<open>Receiver.Export\<close>: the switch on the span's
  current status code.
\<close>

definition Export_status :: "Status \<Rightarrow> Status" where
  "Export_status st =
     (if Code st = Status_STATUS_CODE_UNSET then
        (if DeprecatedCode st \<noteq> Status_DEPRECATED_STATUS_CODE_OK
           then st\<lparr>Code := Status_STATUS_CODE_ERROR\<rparr>
         else st)
      else if Code st = Status_STATUS_CODE_OK
        then st\<lparr>DeprecatedCode := Status_DEPRECATED_STATUS_CODE_OK\<rparr>
      else if Code st = Status_STATUS_CODE_ERROR
        then st\<lparr>DeprecatedCode := Status_DEPRECATED_STATUS_CODE_UNKNOWN_ERROR\<rparr>
      else st)"

definition Export_span :: "Span \<Rightarrow> Span" where
  "Export_span span = span\<lparr>Status := Export_status (Status span)\<rparr>"

text \<open>
  The three nested \<open>range\<close> loops. The slices hold pointers to messages that the
  transport has just decoded, each message owned by one slot; the loops update every
  span in place and leave the slices as they are (a nil slice stays nil).
\<close>

definition Export_ils :: "InstrumentationLibrarySpans \<Rightarrow> InstrumentationLibrarySpans" where
  "Export_ils ils = ils\<lparr>Spans := map_option (map Export_span) (Spans ils)\<rparr>"

definition Export_rss :: "ResourceSpans \<Rightarrow> ResourceSpans" where
  "Export_rss rss =
     rss\<lparr>InstrumentationLibrarySpans :=
            map_option (map Export_ils) (InstrumentationLibrarySpans rss)\<rparr>"

definition Export_convert :: "ExportTraceServiceRequest \<Rightarrow> ExportTraceServiceRequest" where
  "Export_convert req = req\<lparr>ResourceSpans := map_option (map Export_rss) (ResourceSpans req)\<rparr>"

section \<open>Receiver: handing the batch to the next consumer\<close>

text \<open>
  The next consumer is any stage with its own state \<open>'c\<close>: \<open>ConsumeTraces\<close> takes the
  batch and the state and returns its error (or none) and the new state. The context
  argument and the observability calls carry no data of the batch and are left out.
\<close>

record 'c Receiver =
  instanceName :: string
  nextConsumer :: "Traces \<Rightarrow> 'c \<Rightarrow> error option \<times> 'c"

datatype ExportTraceServiceResponse = ExportTraceServiceResponse

text \<open>\<open>pdata.TracesFromInternalRep(internal.TracesFromOtlp(req))\<close> wraps the pointer.\<close>

definition TracesFromInternalRep :: "ExportTraceServiceRequest \<Rightarrow> Traces" where
  "TracesFromInternalRep req = \<lparr>orig = Some req\<rparr>"

definition sendToNextConsumer ::
  "'c Receiver \<Rightarrow> Traces \<Rightarrow> 'c \<Rightarrow> panic + (error option \<times> 'c)" where
  "sendToNextConsumer r td c =
     (case SpanCount td of
        Inl p \<Rightarrow> Inl p
      | Inr numSpans \<Rightarrow>
          if numSpans = 0 then Inr (None, c)
          else Inr (nextConsumer r td c))"

definition Export ::
  "'c Receiver \<Rightarrow> ExportTraceServiceRequest \<Rightarrow> 'c \<Rightarrow>
     panic + ((ExportTraceServiceResponse option \<times> error option) \<times> 'c)" where
  "Export r req c =
     (let td = TracesFromInternalRep (Export_convert req) in
      case sendToNextConsumer r td c of
        Inl p \<Rightarrow> Inl p
      | Inr (err, c') \<Rightarrow>
          (case err of
             Some e \<Rightarrow> Inr ((None, Some e), c')
           | None \<Rightarrow> Inr ((Some ExportTraceServiceResponse, None), c')))"

text \<open>Addressing one span of a request by its three indices.\<close>

definition span_in :: "ExportTraceServiceRequest \<Rightarrow> nat \<Rightarrow> nat \<Rightarrow> nat \<Rightarrow> bool" where
  "span_in req i j k \<longleftrightarrow>
     i < length (elems (ResourceSpans req)) \<and>
     j < length (elems (InstrumentationLibrarySpans (elems (ResourceSpans req) ! i))) \<and>
     k < length (elems (Spans
           (elems (InstrumentationLibrarySpans (elems (ResourceSpans req) ! i)) ! j)))"

definition span_at :: "ExportTraceServiceRequest \<Rightarrow> nat \<Rightarrow> nat \<Rightarrow> nat \<Rightarrow> Span" where
  "span_at req i j k =
     elems (Spans
       (elems (InstrumentationLibrarySpans (elems (ResourceSpans req) ! i)) ! j)) ! k"

section \<open>The OTLP metric messages\<close>

text \<open>
  The records follow the schema the pdata generator is driven by (\<open>metricsFile\<close>): one
  record per message, fields in the schema's order under the wire names. A
  \<open>float64\<close> is carried as its 64 bits. A string map is a sequence of key and value
  pairs.
\<close>

type_synonym float64 = "64 word"
type_synonym StringMap = "(string \<times> string) slice"

record IntExemplar =
  IntExemplar_TimeUnixNano :: uint64
  IntExemplar_Value :: int64
  IntExemplar_FilteredLabels :: StringMap

record DoubleExemplar =
  DoubleExemplar_TimeUnixNano :: uint64
  DoubleExemplar_Value :: float64
  DoubleExemplar_FilteredLabels :: StringMap

record IntDataPoint =
  IntDataPoint_Labels :: StringMap
  IntDataPoint_StartTimeUnixNano :: uint64
  IntDataPoint_TimeUnixNano :: uint64
  IntDataPoint_Value :: int64
  IntDataPoint_Exemplars :: "IntExemplar slice"

record DoubleDataPoint =
  DoubleDataPoint_Labels :: StringMap
  DoubleDataPoint_StartTimeUnixNano :: uint64
  DoubleDataPoint_TimeUnixNano :: uint64
  DoubleDataPoint_Value :: float64
  DoubleDataPoint_Exemplars :: "DoubleExemplar slice"

record IntHistogramDataPoint =
  IntHistogramDataPoint_Labels :: StringMap
  IntHistogramDataPoint_StartTimeUnixNano :: uint64
  IntHistogramDataPoint_TimeUnixNano :: uint64
  IntHistogramDataPoint_Count :: uint64
  IntHistogramDataPoint_Sum :: int64
  IntHistogramDataPoint_BucketCounts :: "uint64 slice"
  IntHistogramDataPoint_ExplicitBounds :: "float64 slice"
  IntHistogramDataPoint_Exemplars :: "IntExemplar slice"

record DoubleHistogramDataPoint =
  DoubleHistogramDataPoint_Labels :: StringMap
  DoubleHistogramDataPoint_StartTimeUnixNano :: uint64
  DoubleHistogramDataPoint_TimeUnixNano :: uint64
  DoubleHistogramDataPoint_Count :: uint64
  DoubleHistogramDataPoint_Sum :: float64
  DoubleHistogramDataPoint_BucketCounts :: "uint64 slice"
  DoubleHistogramDataPoint_ExplicitBounds :: "float64 slice"
  DoubleHistogramDataPoint_Exemplars :: "DoubleExemplar slice"

record ValueAtQuantile =
  Quantile :: float64
  ValueAtQuantile_Value :: float64

record DoubleSummaryDataPoint =
  DoubleSummaryDataPoint_Labels :: StringMap
  DoubleSummaryDataPoint_StartTimeUnixNano :: uint64
  DoubleSummaryDataPoint_TimeUnixNano :: uint64
  DoubleSummaryDataPoint_Count :: uint64
  DoubleSummaryDataPoint_Sum :: float64
  QuantileValues :: "ValueAtQuantile slice"

record IntGauge =
  IntGauge_DataPoints :: "IntDataPoint slice"

record DoubleGauge =
  DoubleGauge_DataPoints :: "DoubleDataPoint slice"

record IntSum =
  IntSum_AggregationTemporality :: int32
  IntSum_IsMonotonic :: bool
  IntSum_DataPoints :: "IntDataPoint slice"

record DoubleSum =
  DoubleSum_AggregationTemporality :: int32
  DoubleSum_IsMonotonic :: bool
  DoubleSum_DataPoints :: "DoubleDataPoint slice"

record IntHistogram =
  IntHistogram_AggregationTemporality :: int32
  IntHistogram_DataPoints :: "IntHistogramDataPoint slice"

record DoubleHistogram =
  DoubleHistogram_AggregationTemporality :: int32
  DoubleHistogram_DataPoints :: "DoubleHistogramDataPoint slice"

record DoubleSummary =
  DoubleSummary_DataPoints :: "DoubleSummaryDataPoint slice"

text \<open>The oneof payload of a metric: no variant, or exactly one.\<close>

datatype Metric_Data =
  NoData
  | Metric_IntGauge IntGauge
  | Metric_DoubleGauge DoubleGauge
  | Metric_IntSum IntSum
  | Metric_DoubleSum DoubleSum
  | Metric_IntHistogram IntHistogram
  | Metric_DoubleHistogram DoubleHistogram
  | Metric_DoubleSummary DoubleSummary

record Metric =
  MetricName :: string
  Description :: string
  Unit :: string
  Data :: Metric_Data

record InstrumentationLibraryMetrics =
  ILM_InstrumentationLibrary :: InstrumentationLibrary
  Metrics :: "Metric slice"

record ResourceMetrics =
  RM_Resource :: Resource
  InstrumentationLibraryMetrics :: "InstrumentationLibraryMetrics slice"

record ExportMetricsServiceRequest =
  ResourceMetrics :: "ResourceMetrics slice"

record Metrics =
  Metrics_orig :: "ExportMetricsServiceRequest option"

datatype MetricDataType =
  MetricDataTypeNone
  | MetricDataTypeIntGauge
  | MetricDataTypeDoubleGauge
  | MetricDataTypeIntSum
  | MetricDataTypeDoubleSum
  | MetricDataTypeIntHistogram
  | MetricDataTypeDoubleHistogram
  | MetricDataTypeSummary

section \<open>pdata: the metric views\<close>

definition then_do :: "panic + 'a \<Rightarrow> ('a \<Rightarrow> panic + 'b) \<Rightarrow> panic + 'b" where
  "then_do r f = (case r of Inl p \<Rightarrow> Inl p | Inr x \<Rightarrow> f x)"

text \<open>
  Modelled from the spec: the generated views of the metric messages (constructors,
  \<open>Resize\<close>, \<open>SetDataType\<close>, the variant accessors, the attribute and label maps) and
  \<open>Metrics.MetricAndDataPointCount\<close> are outside the sources at hand.
  \<open>Resize(n)\<close> keeps the elements below \<open>min(old, new)\<close>, fills growth with the zero
  value and discards shrinkage; it is specified for \<open>n \<ge> 0\<close>, and a negative length is
  taken as the failure of the Go slice expression. A sequence resized to 0 is the unset
  one. The per-variant setter discards the previous payload and installs a fresh one;
  reading a variant that is not the active one fails fast. The counts are computed by a
  full traversal.
\<close>

definition Resize :: "'a \<Rightarrow> 'a slice \<Rightarrow> int \<Rightarrow> panic + 'a slice" where
  "Resize zero es newLen =
     (if newLen < 0 then Inl SliceBoundsOutOfRange
      else if newLen = 0 then Inr None
      else Inr (Some (take (nat newLen) (elems es) @
                      replicate (nat newLen - length (elems es)) zero)))"

text \<open>Writing through the view \<open>At(i)\<close> of an element that is in range.\<close>

definition set_At :: "'a slice \<Rightarrow> nat \<Rightarrow> 'a \<Rightarrow> 'a slice" where
  "set_At es i x = map_option (\<lambda>xs. xs[i := x]) es"

definition zero_IntDataPoint :: IntDataPoint where
  "zero_IntDataPoint =
     \<lparr>IntDataPoint_Labels = None, IntDataPoint_StartTimeUnixNano = 0,
      IntDataPoint_TimeUnixNano = 0, IntDataPoint_Value = 0, IntDataPoint_Exemplars = None\<rparr>"

definition zero_Metric :: Metric where
  "zero_Metric = \<lparr>MetricName = [], Description = [], Unit = [], Data = NoData\<rparr>"

definition zero_InstrumentationLibraryMetrics :: InstrumentationLibraryMetrics where
  "zero_InstrumentationLibraryMetrics =
     \<lparr>ILM_InstrumentationLibrary = zero_InstrumentationLibrary, Metrics = None\<rparr>"

definition zero_ResourceMetrics :: ResourceMetrics where
  "zero_ResourceMetrics =
     \<lparr>RM_Resource = zero_Resource, InstrumentationLibraryMetrics = None\<rparr>"

definition NewMetrics :: Metrics where
  "NewMetrics = \<lparr>Metrics_orig = Some \<lparr>ResourceMetrics = None\<rparr>\<rparr>"

definition SetDataType :: "Metric \<Rightarrow> MetricDataType \<Rightarrow> Metric" where
  "SetDataType ms ty =
     (case ty of
        MetricDataTypeNone \<Rightarrow> ms
      | MetricDataTypeIntGauge \<Rightarrow>
          ms\<lparr>Data := Metric_IntGauge \<lparr>IntGauge_DataPoints = None\<rparr>\<rparr>
      | MetricDataTypeDoubleGauge \<Rightarrow>
          ms\<lparr>Data := Metric_DoubleGauge \<lparr>DoubleGauge_DataPoints = None\<rparr>\<rparr>
      | MetricDataTypeIntSum \<Rightarrow>
          ms\<lparr>Data := Metric_IntSum \<lparr>IntSum_AggregationTemporality = 0,
                  IntSum_IsMonotonic = False, IntSum_DataPoints = None\<rparr>\<rparr>
      | MetricDataTypeDoubleSum \<Rightarrow>
          ms\<lparr>Data := Metric_DoubleSum \<lparr>DoubleSum_AggregationTemporality = 0,
                  DoubleSum_IsMonotonic = False, DoubleSum_DataPoints = None\<rparr>\<rparr>
      | MetricDataTypeIntHistogram \<Rightarrow>
          ms\<lparr>Data := Metric_IntHistogram \<lparr>IntHistogram_AggregationTemporality = 0,
                  IntHistogram_DataPoints = None\<rparr>\<rparr>
      | MetricDataTypeDoubleHistogram \<Rightarrow>
          ms\<lparr>Data := Metric_DoubleHistogram \<lparr>DoubleHistogram_AggregationTemporality = 0,
                  DoubleHistogram_DataPoints = None\<rparr>\<rparr>
      | MetricDataTypeSummary \<Rightarrow>
          ms\<lparr>Data := Metric_DoubleSummary \<lparr>DoubleSummary_DataPoints = None\<rparr>\<rparr>)"

definition Metric_IntGauge_view :: "Metric \<Rightarrow> panic + IntGauge" where
  "Metric_IntGauge_view ms =
     (case Data ms of Metric_IntGauge g \<Rightarrow> Inr g | _ \<Rightarrow> Inl TypeAssertion)"

text \<open>The attribute map: an unset map of capacity 0, and update-or-append by key.\<close>

definition InitEmptyWithCapacity :: "nat \<Rightarrow> KeyValue slice" where
  "InitEmptyWithCapacity cap = (if cap = 0 then None else Some [])"

fun upsert :: "string \<Rightarrow> AnyValue \<Rightarrow> KeyValue list \<Rightarrow> KeyValue list" where
  "upsert k v [] = [\<lparr>Key = k, Val = v\<rparr>]"
| "upsert k v (a # as) = (if Key a = k then a\<lparr>Val := v\<rparr> # as else a # upsert k v as)"

definition UpsertString :: "KeyValue slice \<Rightarrow> string \<Rightarrow> string \<Rightarrow> KeyValue slice" where
  "UpsertString am k v = Some (upsert k (StringValue v) (elems am))"

definition InitFromMap :: "(string \<times> string) list \<Rightarrow> StringMap" where
  "InitFromMap m = (if m = [] then None else Some m)"

text \<open>The number of data points of a metric's active variant.\<close>

definition dataPointCount_of :: "Metric \<Rightarrow> nat" where
  "dataPointCount_of m =
     (case Data m of
        NoData \<Rightarrow> 0
      | Metric_IntGauge g \<Rightarrow> Len (IntGauge_DataPoints g)
      | Metric_DoubleGauge g \<Rightarrow> Len (DoubleGauge_DataPoints g)
      | Metric_IntSum g \<Rightarrow> Len (IntSum_DataPoints g)
      | Metric_DoubleSum g \<Rightarrow> Len (DoubleSum_DataPoints g)
      | Metric_IntHistogram g \<Rightarrow> Len (IntHistogram_DataPoints g)
      | Metric_DoubleHistogram g \<Rightarrow> Len (DoubleHistogram_DataPoints g)
      | Metric_DoubleSummary g \<Rightarrow> Len (DoubleSummary_DataPoints g))"

definition MetricAndDataPointCount :: "Metrics \<Rightarrow> panic + (nat \<times> nat)" where
  "MetricAndDataPointCount md =
     (case Metrics_orig md of
        None \<Rightarrow> Inl NilDereference
      | Some req \<Rightarrow>
          Inr (\<Sum>rm \<leftarrow> elems (ResourceMetrics req).
                 \<Sum>ilm \<leftarrow> elems (InstrumentationLibraryMetrics rm). Len (Metrics ilm),
               \<Sum>rm \<leftarrow> elems (ResourceMetrics req).
                 \<Sum>ilm \<leftarrow> elems (InstrumentationLibraryMetrics rm).
                   \<Sum>m \<leftarrow> elems (Metrics ilm). dataPointCount_of m))"

section \<open>testbed: the performance data provider\<close>

text \<open>\<open>strconv.Itoa\<close>: the decimal digits of an integer, with a sign when negative.\<close>

function digits :: "nat \<Rightarrow> string" where
  "digits n = (if n < 10 then [char_of (48 + n)] else digits (n div 10) @ [char_of (48 + n mod 10)])"
  by pat_completeness auto
termination
  by (relation "measure id") auto

declare digits.simps [simp del]

definition Itoa :: "int \<Rightarrow> string" where
  "Itoa i = (if i < 0 then CHR ''-'' # digits (nat (- i)) else digits (nat i))"

text \<open>
  \<open>LoadOptions\<close> is declared with the load generator; the provider reads its batch
  size and its attributes. A Go map is an association list in the order the \<open>range\<close>
  loop visits it (\<open>None\<close> is the nil map).
\<close>

record LoadOptions =
  ItemsPerBatch :: int
  LoadOptions_Attributes :: "(string \<times> string) list option"

record PerfTestDataProvider =
  options :: LoadOptions

text \<open>
  What the provider's calls act on outside its own struct: the two counters that
  \<open>SetLoadGeneratorCounters\<close> has installed (\<open>Inc\<close> adds one and returns the new
  value), and the clock, read through \<open>time.Now\<close>; \<open>clockReads\<close> counts the readings
  taken so far and a function from that number gives the reading as a timestamp.
\<close>

record World =
  batchesGenerated :: uint64
  dataItemsGenerated :: uint64
  clockReads :: nat

definition dataPointsPerMetric :: nat where
  "dataPointsPerMetric = 7"

text \<open>The inner loop of \<open>GenerateMetrics\<close>, over \<open>j\<close>: the data points of one metric.\<close>

function GenerateMetrics_points ::
  "(nat \<Rightarrow> uint64) \<Rightarrow> uint64 \<Rightarrow> IntDataPoint slice \<Rightarrow> nat \<Rightarrow> World \<Rightarrow>
     panic + (IntDataPoint slice \<times> World)" where
  "GenerateMetrics_points now batchIndex dps j w =
     (if j < dataPointsPerMetric then
        then_do (At dps j) (\<lambda>dataPoint.
          let startTime = now (clockReads w);
              value = dataItemsGenerated w + 1;
              w' = w\<lparr>clockReads := clockReads w + 1, dataItemsGenerated := value\<rparr>;
              dataPoint' = dataPoint
                \<lparr>IntDataPoint_StartTimeUnixNano := startTime,
                 IntDataPoint_Value := value,
                 IntDataPoint_Labels := InitFromMap
                   [(''item_index'', ''item_'' @ Itoa (int j)),
                    (''batch_index'', ''batch_'' @ Itoa (sint batchIndex))]\<rparr>
          in GenerateMetrics_points now batchIndex (set_At dps j dataPoint') (j + 1) w')
      else Inr (dps, w))"
  by pat_completeness auto
termination
  by (relation "measure (\<lambda>(now, batchIndex, dps, j, w). dataPointsPerMetric - j)") auto

declare GenerateMetrics_points.simps [simp del]

text \<open>The body of the outer loop: metric \<open>i\<close>.\<close>

definition GenerateMetrics_metric ::
  "(nat \<Rightarrow> uint64) \<Rightarrow> nat \<Rightarrow> Metric \<Rightarrow> World \<Rightarrow> panic + (Metric \<times> World)" where
  "GenerateMetrics_metric now i metric0 w =
     (let metric1 = metric0\<lparr>MetricName := ''load_generator_'' @ Itoa (int i)\<rparr>;
          metric2 = metric1\<lparr>Description := ''Load Generator Counter #'' @ Itoa (int i)\<rparr>;
          metric3 = metric2\<lparr>Unit := ''1''\<rparr>;
          metric4 = SetDataType metric3 MetricDataTypeIntGauge;
          batchIndex = batchesGenerated w + 1;
          w1 = w\<lparr>batchesGenerated := batchIndex\<rparr>
      in then_do (Metric_IntGauge_view metric4) (\<lambda>gauge.
         then_do (Resize zero_IntDataPoint (IntGauge_DataPoints gauge) (int dataPointsPerMetric))
           (\<lambda>dps.
         then_do (GenerateMetrics_points now batchIndex dps 0 w1) (\<lambda>(dps', w2).
           Inr (metric4\<lparr>Data := Metric_IntGauge (gauge\<lparr>IntGauge_DataPoints := dps'\<rparr>)\<rparr>, w2)))))"

text \<open>The outer loop, over \<open>i\<close>.\<close>

function GenerateMetrics_metrics ::
  "(nat \<Rightarrow> uint64) \<Rightarrow> int \<Rightarrow> Metric slice \<Rightarrow> nat \<Rightarrow> World \<Rightarrow>
     panic + (Metric slice \<times> World)" where
  "GenerateMetrics_metrics now itemsPerBatch metrics i w =
     (if int i < itemsPerBatch then
        then_do (At metrics i) (\<lambda>metric.
        then_do (GenerateMetrics_metric now i metric w) (\<lambda>(metric', w').
          GenerateMetrics_metrics now itemsPerBatch (set_At metrics i metric') (i + 1) w'))
      else Inr (metrics, w))"
  by pat_completeness auto
termination
  by (relation "measure (\<lambda>(now, itemsPerBatch, metrics, i, w). nat itemsPerBatch - i)") auto

declare GenerateMetrics_metrics.simps [simp del]

definition GenerateMetrics ::
  "(nat \<Rightarrow> uint64) \<Rightarrow> PerfTestDataProvider \<Rightarrow> World \<Rightarrow> panic + ((Metrics \<times> bool) \<times> World)" where
  "GenerateMetrics now dp w =
     then_do (Resize zero_ResourceMetrics None 1) (\<lambda>rms.
     then_do (At rms 0) (\<lambda>rm0.
     then_do (Resize zero_InstrumentationLibraryMetrics (InstrumentationLibraryMetrics rm0) 1)
       (\<lambda>ilms.
     let rm1 =
       (case LoadOptions_Attributes (options dp) of
          None \<Rightarrow> rm0
        | Some kvs \<Rightarrow>
            rm0\<lparr>RM_Resource := \<lparr>ResourceAttributes =
              fold (\<lambda>(k, v) attrs. UpsertString attrs k v) kvs
                (InitEmptyWithCapacity (length kvs))\<rparr>\<rparr>)
     in
     then_do (At ilms 0) (\<lambda>ilm0.
     then_do (Resize zero_Metric (Metrics ilm0) (ItemsPerBatch (options dp))) (\<lambda>metrics.
     then_do (GenerateMetrics_metrics now (ItemsPerBatch (options dp)) metrics 0 w)
       (\<lambda>(metrics', w').
     let ilm1 = ilm0\<lparr>Metrics := metrics'\<rparr>;
         rm2 = rm1\<lparr>InstrumentationLibraryMetrics := set_At ilms 0 ilm1\<rparr>;
         md = \<lparr>Metrics_orig = Some \<lparr>ResourceMetrics = set_At rms 0 rm2\<rparr>\<rparr>
     in Inr ((md, False), w')))))))"

section \<open>The wire format\<close>

text \<open>
  Modelled from the spec: the generated \<open>Marshal\<close> and
  \<open>Unmarshal\<close> of the messages, with their helpers, are outside the sources
  at hand. The wire format is the protobuf encoding of the envelope of the spec's
  section 6. A message is the run of its fields; a field is a tag (field number and wire
  type, as a varint) and a payload: a varint, eight or four little-endian bytes, or a
  length and that many bytes. Absent fields encode as wire defaults, that is, they leave
  no bytes; a sequence is one field per element; a message inside a message is a
  length-delimited field. Encoding always succeeds. Decoding fails on truncated bytes,
  on an illegal tag and on a length that does not fit, and it is all or nothing; a field
  whose number the message does not declare is skipped.
\<close>

subsection \<open>Varints and fixed-width numbers\<close>

text \<open>
  Modelled from the spec: the varint helpers of the generated code.
  \<open>put_uvarint\<close> writes seven bits per byte, low bits first, the top bit of
  a byte saying that more follow. \<open>get_uvarint\<close> reads at most ten bytes
  (the shift stays below 64) into a 64-bit value; bits beyond the 64th are dropped.
\<close>

function put_uvarint :: "nat \<Rightarrow> byte list" where
  "put_uvarint v =
     (if v < 128 then [of_nat v] else of_nat (v mod 128 + 128) # put_uvarint (v div 128))"
  by pat_completeness auto
termination
  by (relation "measure id") auto

declare put_uvarint.simps [simp del]

fun get_uvarint_from :: "nat \<Rightarrow> byte list \<Rightarrow> (nat \<times> byte list) option" where
  "get_uvarint_from shift [] = None"
| "get_uvarint_from shift (b # bs) =
     (if 64 \<le> shift then None
      else if b < 128 then Some (unat b * 2 ^ shift, bs)
      else case get_uvarint_from (shift + 7) bs of
             None \<Rightarrow> None
           | Some (v, rest) \<Rightarrow> Some (unat b mod 128 * 2 ^ shift + v, rest))"

definition get_uvarint :: "byte list \<Rightarrow> (uint64 \<times> byte list) option" where
  "get_uvarint bs =
     (case get_uvarint_from 0 bs of
        None \<Rightarrow> None
      | Some (v, rest) \<Rightarrow> Some (of_nat v, rest))"

definition le_bytes :: "nat \<Rightarrow> nat \<Rightarrow> byte list" where
  "le_bytes k v = map (\<lambda>i. of_nat (v div 256 ^ i mod 256)) [0..<k]"

fun le_value :: "byte list \<Rightarrow> nat" where
  "le_value [] = 0"
| "le_value (b # bs) = unat b + 256 * le_value bs"

subsection \<open>Fields\<close>

text \<open>
  Modelled from the spec: the tag and payload of a field. The wire types are 0 (varint),
  1 (64-bit), 2 (length-delimited) and 5 (32-bit); the group wire types are rejected. A
  field number is a positive \<open>int32\<close>, and a length a non-negative
  \<open>int\<close> that the remaining bytes can supply.
\<close>

datatype wire = Varint uint64 | Fixed64 uint64 | Bytes "byte list" | Fixed32 "32 word"

definition wireType :: "wire \<Rightarrow> nat" where
  "wireType w = (case w of Varint v \<Rightarrow> 0 | Fixed64 v \<Rightarrow> 1 | Bytes bs \<Rightarrow> 2 | Fixed32 v \<Rightarrow> 5)"

definition put_field :: "nat \<times> wire \<Rightarrow> byte list" where
  "put_field f =
     put_uvarint (fst f * 8 + wireType (snd f)) @
     (case snd f of
        Varint v \<Rightarrow> put_uvarint (unat v)
      | Fixed64 v \<Rightarrow> le_bytes 8 (unat v)
      | Bytes bs \<Rightarrow> put_uvarint (length bs) @ bs
      | Fixed32 v \<Rightarrow> le_bytes 4 (unat v))"

definition get_field :: "byte list \<Rightarrow> ((nat \<times> wire) \<times> byte list) option" where
  "get_field bs =
     (case get_uvarint bs of
        None \<Rightarrow> None
      | Some (key, r) \<Rightarrow>
          let fieldNum = unat key div 8 mod 2 ^ 32;
              wt = unat key mod 8
          in if fieldNum = 0 \<or> 2 ^ 31 \<le> fieldNum then None
             else if wt = 0 then
               (case get_uvarint r of
                  None \<Rightarrow> None
                | Some (v, r') \<Rightarrow> Some ((fieldNum, Varint v), r'))
             else if wt = 1 then
               (if length r < 8 then None
                else Some ((fieldNum, Fixed64 (of_nat (le_value (take 8 r)))), drop 8 r))
             else if wt = 2 then
               (case get_uvarint r of
                  None \<Rightarrow> None
                | Some (n, r') \<Rightarrow>
                    if 2 ^ 63 \<le> unat n \<or> length r' < unat n then None
                    else Some ((fieldNum, Bytes (take (unat n) r')), drop (unat n) r'))
             else if wt = 5 then
               (if length r < 4 then None
                else Some ((fieldNum, Fixed32 (of_nat (le_value (take 4 r)))), drop 4 r))
             else None)"

text \<open>Reading a varint or a field consumes at least one byte, so the field loop ends.\<close>

lemma get_uvarint_from_shorter:
  "get_uvarint_from shift bs = Some (v, rest) \<Longrightarrow> length rest < length bs"
proof (induction shift bs arbitrary: v rule: get_uvarint_from.induct)
  case (1 shift)
  then show ?case by simp
next
  case (2 shift b bs)
  from "2.prems" have s: "\<not> 64 \<le> shift"
    by (auto split: if_splits)
  show ?case
  proof (cases "b < 128")
    case True
    with "2.prems" s show ?thesis by simp
  next
    case False
    with "2.prems" s obtain v' where "get_uvarint_from (shift + 7) bs = Some (v', rest)"
      by (auto split: option.splits)
    from "2.IH" [OF s False this] show ?thesis by simp
  qed
qed

lemma get_uvarint_shorter: "get_uvarint bs = Some (v, rest) \<Longrightarrow> length rest < length bs"
  by (auto simp: get_uvarint_def split: option.splits dest: get_uvarint_from_shorter)

lemma get_field_shorter:
  assumes "get_field bs = Some (f, rest)"
  shows "length rest < length bs"
proof -
  from assms obtain key r where k: "get_uvarint bs = Some (key, r)"
    by (cases "get_uvarint bs") (auto simp: get_field_def)
  then have r: "length r < length bs"
    by (rule get_uvarint_shorter)
  have "length rest \<le> length r"
  proof (cases "get_uvarint r")
    case None
    with assms k show ?thesis
      by (auto simp: get_field_def Let_def split: if_splits)
  next
    case (Some p)
    obtain v r' where p: "p = (v, r')" by (cases p)
    from Some p have "length r' < length r"
      by (auto dest: get_uvarint_shorter)
    with assms k Some p show ?thesis
      by (auto simp: get_field_def Let_def split: if_splits)
  qed
  with r show ?thesis by simp
qed

function get_fields :: "byte list \<Rightarrow> (nat \<times> wire) list option" where
  "get_fields bs =
     (if bs = [] then Some []
      else case get_field bs of
             None \<Rightarrow> None
           | Some (f, rest) \<Rightarrow>
               (case get_fields rest of None \<Rightarrow> None | Some fs \<Rightarrow> Some (f # fs)))"
  by pat_completeness auto
termination
  by (relation "measure length") (auto dest: get_field_shorter)

declare get_fields.simps [simp del]

definition put_fields :: "(nat \<times> wire) list \<Rightarrow> byte list" where
  "put_fields fs = concat (map put_field fs)"

text \<open>
  Modelled from the spec: the loop of a generated decoder. It reads the fields in order
  and lets each one set its part of the message being filled; the decoder fails as soon
  as one field does.
\<close>

fun fold_fields ::
  "('m \<Rightarrow> nat \<Rightarrow> wire \<Rightarrow> 'm option) \<Rightarrow> 'm \<Rightarrow> (nat \<times> wire) list \<Rightarrow> 'm option" where
  "fold_fields step m [] = Some m"
| "fold_fields step m (f # fs) =
     (case step m (fst f) (snd f) of None \<Rightarrow> None | Some m' \<Rightarrow> fold_fields step m' fs)"

definition Unmarshal_with ::
  "('m \<Rightarrow> nat \<Rightarrow> wire \<Rightarrow> 'm option) \<Rightarrow> 'm \<Rightarrow> byte list \<Rightarrow> 'm option" where
  "Unmarshal_with step m bs =
     (case get_fields bs of None \<Rightarrow> None | Some fs \<Rightarrow> fold_fields step m fs)"

subsection \<open>Scalar fields\<close>

text \<open>
  Modelled from the spec: the scalar fields. A string, enumeration or fixed-width field
  holding its default value is not written. An enumeration travels as the varint of its
  sign-extended value and is read back truncated to 32 bits. An identifier is always
  written, as no bytes when it is all zero, and read back from no bytes or from exactly
  as many as its array holds.
\<close>

definition bytes_of_string :: "string \<Rightarrow> byte list" where
  "bytes_of_string s = map (\<lambda>c. of_nat (of_char c)) s"

definition string_of_bytes :: "byte list \<Rightarrow> string" where
  "string_of_bytes bs = map (\<lambda>b. char_of (unat b)) bs"

definition string_field :: "nat \<Rightarrow> string \<Rightarrow> (nat \<times> wire) list" where
  "string_field num s = (if s = [] then [] else [(num, Bytes (bytes_of_string s))])"

definition enum_field :: "nat \<Rightarrow> int32 \<Rightarrow> (nat \<times> wire) list" where
  "enum_field num v = (if v = 0 then [] else [(num, Varint (scast v))])"

definition fixed64_field :: "nat \<Rightarrow> uint64 \<Rightarrow> (nat \<times> wire) list" where
  "fixed64_field num v = (if v = 0 then [] else [(num, Fixed64 v)])"

definition id_field :: "nat \<Rightarrow> nat \<Rightarrow> byte list \<Rightarrow> (nat \<times> wire) list" where
  "id_field num n bs = [(num, Bytes (if bs = replicate n 0 then [] else bs))]"

definition get_id :: "nat \<Rightarrow> byte list \<Rightarrow> byte list option" where
  "get_id n bs =
     (if bs = [] then Some (replicate n 0)
      else if length bs = n then Some bs
      else None)"

subsection \<open>Messages\<close>

text \<open>
  Modelled from the spec: the messages. Each message has its list of fields, its field
  setter, and the \<open>Marshal\<close> and \<open>Unmarshal\<close> built from them. A
  sequence element is decoded from the zero value and appended; an embedded message is
  decoded into the one already there. The model's \<open>AnyValue\<close> has the scalar
  variants.
\<close>

definition fields_AnyValue :: "AnyValue \<Rightarrow> (nat \<times> wire) list" where
  "fields_AnyValue v =
     (case v of
        NoValue \<Rightarrow> []
      | StringValue s \<Rightarrow> [(1, Bytes (bytes_of_string s))]
      | BoolValue b \<Rightarrow> [(2, Varint (if b then 1 else 0))]
      | IntValue i \<Rightarrow> [(3, Varint i)]
      | DoubleValue d \<Rightarrow> [(4, Fixed64 d)])"

definition set_AnyValue :: "AnyValue \<Rightarrow> nat \<Rightarrow> wire \<Rightarrow> AnyValue option" where
  "set_AnyValue m num w =
     (if num = 1 then (case w of Bytes bs \<Rightarrow> Some (StringValue (string_of_bytes bs)) | _ \<Rightarrow> None)
      else if num = 2 then (case w of Varint v \<Rightarrow> Some (BoolValue (v \<noteq> 0)) | _ \<Rightarrow> None)
      else if num = 3 then (case w of Varint v \<Rightarrow> Some (IntValue v) | _ \<Rightarrow> None)
      else if num = 4 then (case w of Fixed64 v \<Rightarrow> Some (DoubleValue v) | _ \<Rightarrow> None)
      else Some m)"

definition Marshal_AnyValue :: "AnyValue \<Rightarrow> byte list" where
  "Marshal_AnyValue v = put_fields (fields_AnyValue v)"

definition Unmarshal_AnyValue :: "AnyValue \<Rightarrow> byte list \<Rightarrow> AnyValue option" where
  "Unmarshal_AnyValue = Unmarshal_with set_AnyValue"

definition fields_KeyValue :: "KeyValue \<Rightarrow> (nat \<times> wire) list" where
  "fields_KeyValue kv =
     string_field 1 (Key kv) @ [(2, Bytes (Marshal_AnyValue (Val kv)))]"

definition set_KeyValue :: "KeyValue \<Rightarrow> nat \<Rightarrow> wire \<Rightarrow> KeyValue option" where
  "set_KeyValue m num w =
     (if num = 1 then (case w of Bytes bs \<Rightarrow> Some (m\<lparr>Key := string_of_bytes bs\<rparr>) | _ \<Rightarrow> None)
      else if num = 2 then
        (case w of
           Bytes bs \<Rightarrow> map_option (\<lambda>v. m\<lparr>Val := v\<rparr>) (Unmarshal_AnyValue (Val m) bs)
         | _ \<Rightarrow> None)
      else Some m)"

definition Marshal_KeyValue :: "KeyValue \<Rightarrow> byte list" where
  "Marshal_KeyValue kv = put_fields (fields_KeyValue kv)"

definition Unmarshal_KeyValue :: "KeyValue \<Rightarrow> byte list \<Rightarrow> KeyValue option" where
  "Unmarshal_KeyValue = Unmarshal_with set_KeyValue"

definition fields_Status :: "Status \<Rightarrow> (nat \<times> wire) list" where
  "fields_Status st =
     enum_field 1 (DeprecatedCode st) @ string_field 2 (Message st) @ enum_field 3 (Code st)"

definition set_Status :: "Status \<Rightarrow> nat \<Rightarrow> wire \<Rightarrow> Status option" where
  "set_Status m num w =
     (if num = 1 then (case w of Varint v \<Rightarrow> Some (m\<lparr>DeprecatedCode := ucast v\<rparr>) | _ \<Rightarrow> None)
      else if num = 2 then
        (case w of Bytes bs \<Rightarrow> Some (m\<lparr>Message := string_of_bytes bs\<rparr>) | _ \<Rightarrow> None)
      else if num = 3 then (case w of Varint v \<Rightarrow> Some (m\<lparr>Code := ucast v\<rparr>) | _ \<Rightarrow> None)
      else Some m)"

definition Marshal_Status :: "Status \<Rightarrow> byte list" where
  "Marshal_Status st = put_fields (fields_Status st)"

definition Unmarshal_Status :: "Status \<Rightarrow> byte list \<Rightarrow> Status option" where
  "Unmarshal_Status = Unmarshal_with set_Status"

definition fields_InstrumentationLibrary :: "InstrumentationLibrary \<Rightarrow> (nat \<times> wire) list" where
  "fields_InstrumentationLibrary il =
     string_field 1 (LibraryName il) @ string_field 2 (LibraryVersion il)"

definition set_InstrumentationLibrary ::
  "InstrumentationLibrary \<Rightarrow> nat \<Rightarrow> wire \<Rightarrow> InstrumentationLibrary option" where
  "set_InstrumentationLibrary m num w =
     (if num = 1 then
        (case w of Bytes bs \<Rightarrow> Some (m\<lparr>LibraryName := string_of_bytes bs\<rparr>) | _ \<Rightarrow> None)
      else if num = 2 then
        (case w of Bytes bs \<Rightarrow> Some (m\<lparr>LibraryVersion := string_of_bytes bs\<rparr>) | _ \<Rightarrow> None)
      else Some m)"

definition Marshal_InstrumentationLibrary :: "InstrumentationLibrary \<Rightarrow> byte list" where
  "Marshal_InstrumentationLibrary il = put_fields (fields_InstrumentationLibrary il)"

definition Unmarshal_InstrumentationLibrary ::
  "InstrumentationLibrary \<Rightarrow> byte list \<Rightarrow> InstrumentationLibrary option" where
  "Unmarshal_InstrumentationLibrary = Unmarshal_with set_InstrumentationLibrary"

definition fields_Resource :: "Resource \<Rightarrow> (nat \<times> wire) list" where
  "fields_Resource r =
     map (\<lambda>kv. (1, Bytes (Marshal_KeyValue kv))) (elems (ResourceAttributes r))"

definition set_Resource :: "Resource \<Rightarrow> nat \<Rightarrow> wire \<Rightarrow> Resource option" where
  "set_Resource m num w =
     (if num = 1 then
        (case w of
           Bytes bs \<Rightarrow>
             map_option (\<lambda>kv. m\<lparr>ResourceAttributes := Some (elems (ResourceAttributes m) @ [kv])\<rparr>)
               (Unmarshal_KeyValue zero_KeyValue bs)
         | _ \<Rightarrow> None)
      else Some m)"

definition Marshal_Resource :: "Resource \<Rightarrow> byte list" where
  "Marshal_Resource r = put_fields (fields_Resource r)"

definition Unmarshal_Resource :: "Resource \<Rightarrow> byte list \<Rightarrow> Resource option" where
  "Unmarshal_Resource = Unmarshal_with set_Resource"

definition fields_Span :: "Span \<Rightarrow> (nat \<times> wire) list" where
  "fields_Span s =
     id_field 1 16 (TraceId s) @
     id_field 2 8 (SpanId s) @
     string_field 5 (SpanName s) @
     enum_field 6 (Kind s) @
     fixed64_field 7 (StartTimeUnixNano s) @
     fixed64_field 8 (EndTimeUnixNano s) @
     map (\<lambda>kv. (9, Bytes (Marshal_KeyValue kv))) (elems (Attributes s)) @
     [(15, Bytes (Marshal_Status (Status s)))]"

definition set_Span :: "Span \<Rightarrow> nat \<Rightarrow> wire \<Rightarrow> Span option" where
  "set_Span m num w =
     (if num = 1 then
        (case w of Bytes bs \<Rightarrow> map_option (\<lambda>t. m\<lparr>TraceId := t\<rparr>) (get_id 16 bs) | _ \<Rightarrow> None)
      else if num = 2 then
        (case w of Bytes bs \<Rightarrow> map_option (\<lambda>t. m\<lparr>SpanId := t\<rparr>) (get_id 8 bs) | _ \<Rightarrow> None)
      else if num = 5 then
        (case w of Bytes bs \<Rightarrow> Some (m\<lparr>SpanName := string_of_bytes bs\<rparr>) | _ \<Rightarrow> None)
      else if num = 6 then (case w of Varint v \<Rightarrow> Some (m\<lparr>Kind := ucast v\<rparr>) | _ \<Rightarrow> None)
      else if num = 7 then
        (case w of Fixed64 v \<Rightarrow> Some (m\<lparr>StartTimeUnixNano := v\<rparr>) | _ \<Rightarrow> None)
      else if num = 8 then
        (case w of Fixed64 v \<Rightarrow> Some (m\<lparr>EndTimeUnixNano := v\<rparr>) | _ \<Rightarrow> None)
      else if num = 9 then
        (case w of
           Bytes bs \<Rightarrow>
             map_option (\<lambda>kv. m\<lparr>Attributes := Some (elems (Attributes m) @ [kv])\<rparr>)
               (Unmarshal_KeyValue zero_KeyValue bs)
         | _ \<Rightarrow> None)
      else if num = 15 then
        (case w of
           Bytes bs \<Rightarrow> map_option (\<lambda>st. m\<lparr>Status := st\<rparr>) (Unmarshal_Status (Status m) bs)
         | _ \<Rightarrow> None)
      else Some m)"

definition Marshal_Span :: "Span \<Rightarrow> byte list" where
  "Marshal_Span s = put_fields (fields_Span s)"

definition Unmarshal_Span :: "Span \<Rightarrow> byte list \<Rightarrow> Span option" where
  "Unmarshal_Span = Unmarshal_with set_Span"

definition fields_InstrumentationLibrarySpans ::
  "InstrumentationLibrarySpans \<Rightarrow> (nat \<times> wire) list" where
  "fields_InstrumentationLibrarySpans ils =
     [(1, Bytes (Marshal_InstrumentationLibrary (InstrumentationLibrary ils)))] @
     map (\<lambda>s. (2, Bytes (Marshal_Span s))) (elems (Spans ils))"

definition set_InstrumentationLibrarySpans ::
  "InstrumentationLibrarySpans \<Rightarrow> nat \<Rightarrow> wire \<Rightarrow> InstrumentationLibrarySpans option" where
  "set_InstrumentationLibrarySpans m num w =
     (if num = 1 then
        (case w of
           Bytes bs \<Rightarrow>
             map_option (\<lambda>il. m\<lparr>InstrumentationLibrary := il\<rparr>)
               (Unmarshal_InstrumentationLibrary (InstrumentationLibrary m) bs)
         | _ \<Rightarrow> None)
      else if num = 2 then
        (case w of
           Bytes bs \<Rightarrow>
             map_option (\<lambda>s. m\<lparr>Spans := Some (elems (Spans m) @ [s])\<rparr>)
               (Unmarshal_Span zero_Span bs)
         | _ \<Rightarrow> None)
      else Some m)"

definition Marshal_InstrumentationLibrarySpans :: "InstrumentationLibrarySpans \<Rightarrow> byte list" where
  "Marshal_InstrumentationLibrarySpans ils = put_fields (fields_InstrumentationLibrarySpans ils)"

definition Unmarshal_InstrumentationLibrarySpans ::
  "InstrumentationLibrarySpans \<Rightarrow> byte list \<Rightarrow> InstrumentationLibrarySpans option" where
  "Unmarshal_InstrumentationLibrarySpans = Unmarshal_with set_InstrumentationLibrarySpans"

definition fields_ResourceSpans :: "ResourceSpans \<Rightarrow> (nat \<times> wire) list" where
  "fields_ResourceSpans rs =
     [(1, Bytes (Marshal_Resource (Resource rs)))] @
     map (\<lambda>ils. (2, Bytes (Marshal_InstrumentationLibrarySpans ils)))
       (elems (InstrumentationLibrarySpans rs))"

definition set_ResourceSpans :: "ResourceSpans \<Rightarrow> nat \<Rightarrow> wire \<Rightarrow> ResourceSpans option" where
  "set_ResourceSpans m num w =
     (if num = 1 then
        (case w of
           Bytes bs \<Rightarrow>
             map_option (\<lambda>r. m\<lparr>Resource := r\<rparr>) (Unmarshal_Resource (Resource m) bs)
         | _ \<Rightarrow> None)
      else if num = 2 then
        (case w of
           Bytes bs \<Rightarrow>
             map_option
               (\<lambda>ils. m\<lparr>InstrumentationLibrarySpans :=
                         Some (elems (InstrumentationLibrarySpans m) @ [ils])\<rparr>)
               (Unmarshal_InstrumentationLibrarySpans zero_InstrumentationLibrarySpans bs)
         | _ \<Rightarrow> None)
      else Some m)"

definition Marshal_ResourceSpans :: "ResourceSpans \<Rightarrow> byte list" where
  "Marshal_ResourceSpans rs = put_fields (fields_ResourceSpans rs)"

definition Unmarshal_ResourceSpans :: "ResourceSpans \<Rightarrow> byte list \<Rightarrow> ResourceSpans option" where
  "Unmarshal_ResourceSpans = Unmarshal_with set_ResourceSpans"

definition fields_Request :: "ExportTraceServiceRequest \<Rightarrow> (nat \<times> wire) list" where
  "fields_Request req =
     map (\<lambda>rs. (1, Bytes (Marshal_ResourceSpans rs))) (elems (ResourceSpans req))"

definition set_Request ::
  "ExportTraceServiceRequest \<Rightarrow> nat \<Rightarrow> wire \<Rightarrow> ExportTraceServiceRequest option" where
  "set_Request m num w =
     (if num = 1 then
        (case w of
           Bytes bs \<Rightarrow>
             map_option (\<lambda>rs. m\<lparr>ResourceSpans := Some (elems (ResourceSpans m) @ [rs])\<rparr>)
               (Unmarshal_ResourceSpans zero_ResourceSpans bs)
         | _ \<Rightarrow> None)
      else Some m)"

text \<open>
  Modelled from the spec: the generated \<open>Marshal\<close> and
  \<open>Unmarshal\<close> of the request. \<open>Unmarshal\<close> fills the request it
  is given; when it fails the model hands that request back as it was (how far the
  generated code had filled it is not modelled).
\<close>

definition Request_Marshal :: "ExportTraceServiceRequest \<Rightarrow> byte list \<times> error option" where
  "Request_Marshal req = (put_fields (fields_Request req), None)"

definition Request_Unmarshal ::
  "ExportTraceServiceRequest \<Rightarrow> byte list \<Rightarrow> ExportTraceServiceRequest \<times> error option" where
  "Request_Unmarshal req data =
     (case Unmarshal_with set_Request req data of
        None \<Rightarrow> (req, Some (Error ''proto: cannot parse invalid wire-format data''))
      | Some req' \<Rightarrow> (req', None))"

text \<open>
  A well-formed tree: every identifier has the length of its array.
\<close>

definition wf_Span :: "Span \<Rightarrow> bool" where
  "wf_Span s \<longleftrightarrow> length (TraceId s) = 16 \<and> length (SpanId s) = 8"

definition wf_InstrumentationLibrarySpans :: "InstrumentationLibrarySpans \<Rightarrow> bool" where
  "wf_InstrumentationLibrarySpans ils = list_all wf_Span (elems (Spans ils))"

definition wf_ResourceSpans :: "ResourceSpans \<Rightarrow> bool" where
  "wf_ResourceSpans rs =
     list_all wf_InstrumentationLibrarySpans (elems (InstrumentationLibrarySpans rs))"

definition wf_Request :: "ExportTraceServiceRequest \<Rightarrow> bool" where
  "wf_Request req = list_all wf_ResourceSpans (elems (ResourceSpans req))"

section \<open>Trees in memory: cloning\<close>

text \<open>
  \<open>Clone\<close> is about sharing, so here the messages live in a store. A request, a
  \<open>ResourceSpans\<close>, an \<open>InstrumentationLibrarySpans\<close> and a \<open>Span\<close> are each one
  cell; a cell holds the message's own fields by value and, for a sequence of
  messages, the addresses of its elements. The store is the list of all cells
  allocated so far, the address of a cell being its index, so a fresh cell goes to the
  end.
\<close>

type_synonym addr = nat

datatype obj =
  RequestObj "addr slice"
  | ResourceSpansObj Resource "addr slice"
  | InstrumentationLibrarySpansObj InstrumentationLibrary "addr slice"
  | SpanObj Span

type_synonym heap = "obj list"

definition load :: "heap \<Rightarrow> addr \<Rightarrow> obj option" where
  "load h a = (if a < length h then Some (h ! a) else None)"

definition new_obj :: "heap \<Rightarrow> obj \<Rightarrow> addr \<times> heap" where
  "new_obj h ob = (length h, h @ [ob])"

definition store :: "heap \<Rightarrow> addr \<Rightarrow> obj \<Rightarrow> heap" where
  "store h a ob = h[a := ob]"

text \<open>
  The tree a cell stands for, read through the store; \<open>None\<close> when an address dangles or
  holds a cell of another kind.
\<close>

definition tree_slice :: "(addr \<Rightarrow> 'a option) \<Rightarrow> addr slice \<Rightarrow> 'a slice option" where
  "tree_slice f s =
     (case s of None \<Rightarrow> Some None | Some as \<Rightarrow> map_option Some (those (map f as)))"

definition tree_Span :: "heap \<Rightarrow> addr \<Rightarrow> Span option" where
  "tree_Span h a = (case load h a of Some (SpanObj s) \<Rightarrow> Some s | _ \<Rightarrow> None)"

definition tree_InstrumentationLibrarySpans ::
  "heap \<Rightarrow> addr \<Rightarrow> InstrumentationLibrarySpans option" where
  "tree_InstrumentationLibrarySpans h a =
     (case load h a of
        Some (InstrumentationLibrarySpansObj il ss) \<Rightarrow>
          map_option (\<lambda>spans. \<lparr>InstrumentationLibrary = il, Spans = spans\<rparr>)
            (tree_slice (tree_Span h) ss)
      | _ \<Rightarrow> None)"

definition tree_ResourceSpans :: "heap \<Rightarrow> addr \<Rightarrow> ResourceSpans option" where
  "tree_ResourceSpans h a =
     (case load h a of
        Some (ResourceSpansObj r ils) \<Rightarrow>
          map_option (\<lambda>ilss. \<lparr>Resource = r, InstrumentationLibrarySpans = ilss\<rparr>)
            (tree_slice (tree_InstrumentationLibrarySpans h) ils)
      | _ \<Rightarrow> None)"

definition tree_Request :: "heap \<Rightarrow> addr \<Rightarrow> ExportTraceServiceRequest option" where
  "tree_Request h a =
     (case load h a of
        Some (RequestObj rs) \<Rightarrow>
          map_option (\<lambda>rss. \<lparr>ResourceSpans = rss\<rparr>) (tree_slice (tree_ResourceSpans h) rs)
      | _ \<Rightarrow> None)"

text \<open>The cells reachable from a cell.\<close>

definition cells_InstrumentationLibrarySpans :: "heap \<Rightarrow> addr \<Rightarrow> addr list" where
  "cells_InstrumentationLibrarySpans h a =
     a # (case load h a of
            Some (InstrumentationLibrarySpansObj il ss) \<Rightarrow> elems ss
          | _ \<Rightarrow> [])"

definition cells_ResourceSpans :: "heap \<Rightarrow> addr \<Rightarrow> addr list" where
  "cells_ResourceSpans h a =
     a # (case load h a of
            Some (ResourceSpansObj r ils) \<Rightarrow>
              concat (map (cells_InstrumentationLibrarySpans h) (elems ils))
          | _ \<Rightarrow> [])"

definition cells_Request :: "heap \<Rightarrow> addr \<Rightarrow> addr list" where
  "cells_Request h a =
     a # (case load h a of
            Some (RequestObj rs) \<Rightarrow> concat (map (cells_ResourceSpans h) (elems rs))
          | _ \<Rightarrow> [])"

text \<open>
  Modelled from the spec: the generated \<open>CopyTo\<close> of the slices and of their elements
  is outside the sources at hand. \<open>CopyTo(dst)\<close> is a deep, never-aliasing,
  element-wise copy: every element is copied into a cell of its own, freshly
  allocated, and so are the elements below it. A source of length 0 leaves the
  destination unset.
\<close>

definition unset_if_empty :: "'a slice \<Rightarrow> 'a slice" where
  "unset_if_empty s = (if elems s = [] then None else s)"

fun copy_elems ::
  "(heap \<Rightarrow> addr \<Rightarrow> panic + (addr \<times> heap)) \<Rightarrow> heap \<Rightarrow> addr list \<Rightarrow>
     panic + (addr list \<times> heap)" where
  "copy_elems f h [] = Inr ([], h)"
| "copy_elems f h (a # as) =
     then_do (f h a) (\<lambda>(a', h1).
     then_do (copy_elems f h1 as) (\<lambda>(as', h2). Inr (a' # as', h2)))"

definition slice_CopyTo ::
  "(heap \<Rightarrow> addr \<Rightarrow> panic + (addr \<times> heap)) \<Rightarrow> heap \<Rightarrow> addr slice \<Rightarrow>
     panic + (addr slice \<times> heap)" where
  "slice_CopyTo f h src =
     (if Len src = 0 then Inr (None, h)
      else then_do (copy_elems f h (elems src)) (\<lambda>(as', h'). Inr (Some as', h')))"

text \<open>
  The copy of a message's own fields: the attribute map is a sequence too, and its
  \<open>CopyTo\<close> leaves the destination unset when the source is empty.
\<close>

definition unset_empty_Resource :: "Resource \<Rightarrow> Resource" where
  "unset_empty_Resource r = r\<lparr>ResourceAttributes := unset_if_empty (ResourceAttributes r)\<rparr>"

definition unset_empty_Span :: "Span \<Rightarrow> Span" where
  "unset_empty_Span s = s\<lparr>Attributes := unset_if_empty (Attributes s)\<rparr>"

definition Span_CopyTo :: "heap \<Rightarrow> addr \<Rightarrow> panic + (addr \<times> heap)" where
  "Span_CopyTo h a =
     (case load h a of
        Some (SpanObj s) \<Rightarrow> Inr (new_obj h (SpanObj (unset_empty_Span s)))
      | _ \<Rightarrow> Inl NilDereference)"

definition InstrumentationLibrarySpans_CopyTo :: "heap \<Rightarrow> addr \<Rightarrow> panic + (addr \<times> heap)" where
  "InstrumentationLibrarySpans_CopyTo h a =
     (case load h a of
        Some (InstrumentationLibrarySpansObj il ss) \<Rightarrow>
          then_do (slice_CopyTo Span_CopyTo h ss) (\<lambda>(ss', h1).
            Inr (new_obj h1 (InstrumentationLibrarySpansObj il ss')))
      | _ \<Rightarrow> Inl NilDereference)"

definition ResourceSpans_CopyTo :: "heap \<Rightarrow> addr \<Rightarrow> panic + (addr \<times> heap)" where
  "ResourceSpans_CopyTo h a =
     (case load h a of
        Some (ResourceSpansObj r ils) \<Rightarrow>
          then_do (slice_CopyTo InstrumentationLibrarySpans_CopyTo h ils) (\<lambda>(ils', h1).
            Inr (new_obj h1 (ResourceSpansObj (unset_empty_Resource r) ils')))
      | _ \<Rightarrow> Inl NilDereference)"

text \<open>
  \<open>Traces.Clone\<close>, on a \<open>Traces\<close> whose \<open>orig\<close> is the given pointer: a new request
  (\<open>NewTraces\<close>), then the \<open>CopyTo\<close> of the source's \<open>ResourceSpans\<close> slice into the
  new request's.
\<close>

definition Clone :: "heap \<Rightarrow> addr option \<Rightarrow> panic + (addr option \<times> heap)" where
  "Clone h td =
     (let (cloneTd, h0) = new_obj h (RequestObj None) in
      case td of
        None \<Rightarrow> Inl NilDereference
      | Some t \<Rightarrow>
          (case load h0 t of
             Some (RequestObj rs) \<Rightarrow>
               then_do (slice_CopyTo ResourceSpans_CopyTo h0 rs) (\<lambda>(rs', h1).
                 Inr (Some cloneTd, store h1 cloneTd (RequestObj rs')))
           | _ \<Rightarrow> Inl NilDereference))"

text \<open>What a tree looks like once every empty sequence in it is unset.\<close>

definition unset_empty_InstrumentationLibrarySpans ::
  "InstrumentationLibrarySpans \<Rightarrow> InstrumentationLibrarySpans" where
  "unset_empty_InstrumentationLibrarySpans ils =
     ils\<lparr>Spans := unset_if_empty (map_option (map unset_empty_Span) (Spans ils))\<rparr>"

definition unset_empty_ResourceSpans :: "ResourceSpans \<Rightarrow> ResourceSpans" where
  "unset_empty_ResourceSpans rs =
     rs\<lparr>Resource := unset_empty_Resource (Resource rs),
        InstrumentationLibrarySpans :=
          unset_if_empty (map_option (map unset_empty_InstrumentationLibrarySpans)
            (InstrumentationLibrarySpans rs))\<rparr>"

definition unset_empty :: "ExportTraceServiceRequest \<Rightarrow> ExportTraceServiceRequest" where
  "unset_empty req =
     req\<lparr>ResourceSpans :=
           unset_if_empty (map_option (map unset_empty_ResourceSpans) (ResourceSpans req))\<rparr>"

section \<open>Example inputs\<close>

text \<open>
  A span with the given current and deprecated status codes, and a request of one
  resource and one library group holding the given spans.
\<close>

definition span_with :: "int32 \<Rightarrow> int32 \<Rightarrow> Span" where
  "span_with c d = zero_Span\<lparr>Status := \<lparr>DeprecatedCode = d, Message = [], Code = c\<rparr>\<rparr>"

definition req_of :: "Span list \<Rightarrow> ExportTraceServiceRequest" where
  "req_of ss =
     \<lparr>ResourceSpans = Some
        [\<lparr>Resource = \<lparr>ResourceAttributes = None\<rparr>,
          InstrumentationLibrarySpans = Some
            [\<lparr>InstrumentationLibrary = \<lparr>LibraryName = [], LibraryVersion = []\<rparr>,
              Spans = Some ss\<rparr>]\<rparr>]\<rparr>"

text \<open>Four spans, one per case of the conversion at ingress.\<close>

definition req4 :: ExportTraceServiceRequest where
  "req4 = req_of [span_with 0 2, span_with 0 0, span_with 1 5, span_with 2 0]"

text \<open>A decoder that fails after it has begun to fill the request.\<close>

definition failing_Unmarshal ::
  "ExportTraceServiceRequest \<Rightarrow> byte list \<Rightarrow> ExportTraceServiceRequest \<times> error option" where
  "failing_Unmarshal req data =
     (req\<lparr>ResourceSpans := Some [\<lparr>Resource = \<lparr>ResourceAttributes = None\<rparr>,
                                   InstrumentationLibrarySpans = None\<rparr>]\<rparr>,
      Some (Error ''unexpected EOF''))"

text \<open>Two resources, each with one library group of three spans.\<close>

definition ils3 :: InstrumentationLibrarySpans where
  "ils3 = \<lparr>InstrumentationLibrary = \<lparr>LibraryName = [], LibraryVersion = []\<rparr>,
           Spans = Some [zero_Span, zero_Span, zero_Span]\<rparr>"

definition td6 :: Traces where
  "td6 = \<lparr>orig = Some \<lparr>ResourceSpans = Some
      [\<lparr>Resource = \<lparr>ResourceAttributes = None\<rparr>, InstrumentationLibrarySpans = Some [ils3]\<rparr>,
       \<lparr>Resource = \<lparr>ResourceAttributes = None\<rparr>, InstrumentationLibrarySpans = Some [ils3]\<rparr>]\<rparr>\<rparr>"

text \<open>A consumer that counts its calls and rejects every batch.\<close>

definition counting_consumer :: "nat Receiver" where
  "counting_consumer =
     \<lparr>instanceName = ''otlp'', nextConsumer = (\<lambda>td n. (Some (Error ''rejected''), Suc n))\<rparr>"

text \<open>A consumer that accepts every batch and records the batches it was given, in order.\<close>

definition recording_consumer :: "Traces list Receiver" where
  "recording_consumer =
     \<lparr>instanceName = ''otlp'', nextConsumer = (\<lambda>td seen. (None, seen @ [td]))\<rparr>"

text \<open>One metric per batch, no attributes, the counters at zero.\<close>

definition perf1 :: PerfTestDataProvider where
  "perf1 = \<lparr>options = \<lparr>ItemsPerBatch = 1, LoadOptions_Attributes = None\<rparr>\<rparr>"

definition world0 :: World where
  "world0 = \<lparr>batchesGenerated = 0, dataItemsGenerated = 0, clockReads = 0\<rparr>"

text \<open>A store holding one request of one resource, one library group and one span.\<close>

definition heap1 :: heap where
  "heap1 =
     [SpanObj zero_Span,
      InstrumentationLibrarySpansObj \<lparr>LibraryName = [], LibraryVersion = []\<rparr> (Some [0]),
      ResourceSpansObj \<lparr>ResourceAttributes = None\<rparr> (Some [1]),
      RequestObj (Some [2])]"

definition heap1_cloned :: heap where
  "heap1_cloned = heap1 @
     [RequestObj (Some [7]),
      SpanObj zero_Span,
      InstrumentationLibrarySpansObj \<lparr>LibraryName = [], LibraryVersion = []\<rparr> (Some [5]),
      ResourceSpansObj \<lparr>ResourceAttributes = None\<rparr> (Some [6])]"

text \<open>A metric of the IntGauge variant with the given number of data points.\<close>

definition is_IntGauge_of :: "nat \<Rightarrow> Metric \<Rightarrow> bool" where
  "is_IntGauge_of n m \<longleftrightarrow>
     (case Data m of Metric_IntGauge g \<Rightarrow> Len (IntGauge_DataPoints g) = n | _ \<Rightarrow> False)"

section \<open>The span count\<close>

lemma elems_map_option [simp]: "elems (map_option (map f) s) = map f (elems s)"
  by (cases s) (simp_all add: elems_def)

lemma SpanCount_ilss_sum:
  "SpanCount_ilss ilss j c =
     Inr (c + (\<Sum>ils \<leftarrow> drop j (elems ilss). length (elems (Spans ils))))"
proof (induction ilss j c rule: SpanCount_ilss.induct)
  case (1 ilss j spanCount)
  show ?case
  proof (cases "j < Len ilss")
    case True
    then have at: "At ilss j = Inr (elems ilss ! j)"
      by (simp add: At_def Len_def)
    have dr: "drop j (elems ilss) = elems ilss ! j # drop (Suc j) (elems ilss)"
      using True by (simp add: Len_def Cons_nth_drop_Suc)
    show ?thesis
      using True "1.IH" [OF True at] at
      by (subst SpanCount_ilss.simps) (simp add: dr Len_def)
  next
    case False
    then show ?thesis
      by (subst SpanCount_ilss.simps) (simp add: Len_def)
  qed
qed

lemma SpanCount_rss_sum:
  "SpanCount_rss rss i c =
     Inr (c + (\<Sum>rs \<leftarrow> drop i (elems rss).
                 \<Sum>ils \<leftarrow> elems (InstrumentationLibrarySpans rs). length (elems (Spans ils))))"
proof (induction rss i c rule: SpanCount_rss.induct)
  case (1 rss i spanCount)
  show ?case
  proof (cases "i < Len rss")
    case True
    then have at: "At rss i = Inr (elems rss ! i)"
      by (simp add: At_def Len_def)
    have dr: "drop i (elems rss) = elems rss ! i # drop (Suc i) (elems rss)"
      using True by (simp add: Len_def Cons_nth_drop_Suc)
    have inner: "SpanCount_ilss (InstrumentationLibrarySpans (elems rss ! i)) 0 spanCount =
        Inr (spanCount + (\<Sum>ils \<leftarrow> elems (InstrumentationLibrarySpans (elems rss ! i)).
                            length (elems (Spans ils))))"
      by (simp add: SpanCount_ilss_sum)
    show ?thesis
      using True "1.IH" [OF True at inner] at inner
      by (subst SpanCount_rss.simps) (simp add: dr)
  next
    case False
    then show ?thesis
      by (subst SpanCount_rss.simps) (simp add: Len_def)
  qed
qed

lemma SpanCount_total: "SpanCount \<lparr>orig = Some req\<rparr> = Inr (total_spans req)"
  by (simp add: SpanCount_def Traces_ResourceSpans_def SpanCount_rss_sum total_spans_def)

lemma total_spans_Export_convert: "total_spans (Export_convert req) = total_spans req"
proof -
  have ils: "length (elems (Spans (Export_ils ils))) = length (elems (Spans ils))" for ils
    by (simp add: Export_ils_def)
  have rs: "(\<Sum>ils \<leftarrow> elems (InstrumentationLibrarySpans (Export_rss rs)).
               length (elems (Spans ils))) =
            (\<Sum>ils \<leftarrow> elems (InstrumentationLibrarySpans rs). length (elems (Spans ils)))" for rs
    by (simp add: Export_rss_def comp_def ils)
  show ?thesis
    by (simp add: total_spans_def Export_convert_def comp_def rs)
qed

text \<open>
  C6. On a valid \<open>Traces\<close> (one that wraps a request), \<open>SpanCount\<close> returns the sum, over
  every \<open>ResourceSpans\<close> element and every \<open>InstrumentationLibrarySpans\<close> element in
  it, of the length of its \<open>Spans\<close> sequence. It is a function of the tree alone (the
  struct has no field to cache it in), so each call traverses the tree it is given. A
  tree of two resources, each with one group of three spans, counts six.
\<close>

theorem SpanCount_sum:
  assumes "orig td = Some req"
  shows "SpanCount td = Inr (\<Sum>rs \<leftarrow> elems (ResourceSpans req).
            \<Sum>ils \<leftarrow> elems (InstrumentationLibrarySpans rs). length (elems (Spans ils))) \<and>
         (length (elems (ResourceSpans req)) = 2 \<and>
          (\<forall>rs \<in> set (elems (ResourceSpans req)).
             length (elems (InstrumentationLibrarySpans rs)) = 1 \<and>
             (\<forall>ils \<in> set (elems (InstrumentationLibrarySpans rs)).
                length (elems (Spans ils)) = 3))
          \<longrightarrow> SpanCount td = Inr 6)"
proof -
  have td: "td = \<lparr>orig = Some req\<rparr>"
    using assms by (cases td) simp
  have total: "SpanCount td = Inr (total_spans req)"
    unfolding td by (rule SpanCount_total)
  have six: "total_spans req = 6"
    if len: "length (elems (ResourceSpans req)) = 2"
      and each: "\<forall>rs \<in> set (elems (ResourceSpans req)).
             length (elems (InstrumentationLibrarySpans rs)) = 1 \<and>
             (\<forall>ils \<in> set (elems (InstrumentationLibrarySpans rs)).
                length (elems (Spans ils)) = 3)"
  proof -
    have one: "(\<Sum>ils \<leftarrow> elems (InstrumentationLibrarySpans rs). length (elems (Spans ils))) = 3"
      if "rs \<in> set (elems (ResourceSpans req))" for rs
    proof -
      from each that obtain ils where
        "elems (InstrumentationLibrarySpans rs) = [ils]" "length (elems (Spans ils)) = 3"
        by (cases "elems (InstrumentationLibrarySpans rs)") auto
      then show ?thesis by simp
    qed
    from len obtain a b where ab: "elems (ResourceSpans req) = [a, b]"
      by (cases "elems (ResourceSpans req)"; cases "tl (elems (ResourceSpans req))") auto
    show ?thesis
      using one [of a] one [of b] by (simp add: total_spans_def ab)
  qed
  from total six show ?thesis
    by (simp add: total_spans_def)
qed

theorem SpanCount_sum_witness:
  "orig td6 \<noteq> None \<and>
   map (\<lambda>rs. map (\<lambda>ils. length (elems (Spans ils))) (elems (InstrumentationLibrarySpans rs)))
     (elems (ResourceSpans (the (orig td6)))) = [[3], [3]] \<and>
   SpanCount td6 = Inr 6"
proof -
  let ?req = "the (orig td6)"
  have o: "orig td6 = Some ?req"
    by (simp add: td6_def)
  have shape: "length (elems (ResourceSpans ?req)) = 2 \<and>
     (\<forall>rs \<in> set (elems (ResourceSpans ?req)).
        length (elems (InstrumentationLibrarySpans rs)) = 1 \<and>
        (\<forall>ils \<in> set (elems (InstrumentationLibrarySpans rs)). length (elems (Spans ils)) = 3))"
    by (simp add: td6_def ils3_def elems_def)
  from SpanCount_sum [OF o] shape have six: "SpanCount td6 = Inr 6"
    by blast
  have "orig td6 \<noteq> None"
    by (simp add: td6_def)
  moreover have "map (\<lambda>rs. map (\<lambda>ils. length (elems (Spans ils)))
        (elems (InstrumentationLibrarySpans rs))) (elems (ResourceSpans ?req)) = [[3], [3]]"
    by (simp add: td6_def ils3_def elems_def)
  ultimately show ?thesis
    using six by blast
qed

section \<open>Status codes at ingress and through the view\<close>

lemmas status_consts =
  Status_STATUS_CODE_UNSET_def Status_STATUS_CODE_OK_def Status_STATUS_CODE_ERROR_def
  Status_DEPRECATED_STATUS_CODE_OK_def Status_DEPRECATED_STATUS_CODE_UNKNOWN_ERROR_def
  StatusCodeUnset_def StatusCodeOk_def StatusCodeError_def

lemma span_in_Export_convert [simp]: "span_in (Export_convert req) i j k = span_in req i j k"
  by (auto simp: span_in_def Export_convert_def Export_rss_def Export_ils_def)

lemma span_at_Export_convert:
  "span_in req i j k \<Longrightarrow> span_at (Export_convert req) i j k = Export_span (span_at req i j k)"
  by (simp add: span_in_def span_at_def Export_convert_def Export_rss_def Export_ils_def)

lemma Export_status_unset:
  "Code st = Status_STATUS_CODE_UNSET \<Longrightarrow>
   Code (Export_status st) =
     (if DeprecatedCode st \<noteq> Status_DEPRECATED_STATUS_CODE_OK
      then Status_STATUS_CODE_ERROR else Status_STATUS_CODE_UNSET)"
  by (simp add: Export_status_def)

lemma Export_status_set:
  "(Code st = Status_STATUS_CODE_OK \<longrightarrow>
      DeprecatedCode (Export_status st) = Status_DEPRECATED_STATUS_CODE_OK) \<and>
   (Code st = Status_STATUS_CODE_ERROR \<longrightarrow>
      DeprecatedCode (Export_status st) = Status_DEPRECATED_STATUS_CODE_UNKNOWN_ERROR)"
  by (simp add: Export_status_def status_consts)

lemma span_in_req_of: "span_in (req_of ss) 0 0 k \<longleftrightarrow> k < length ss"
  by (simp add: span_in_def req_of_def elems_def)

lemma span_at_req_of: "span_at (req_of ss) 0 0 k = ss ! k"
  by (simp add: span_at_def req_of_def elems_def)

text \<open>
  A request that holds a span has a positive span count, so \<open>Export\<close> passes the early
  return of \<open>sendToNextConsumer\<close>: the next consumer is called on the converted
  request, and the reply of \<open>Export\<close> is made from what that call returns.
\<close>

lemma span_in_total_spans:
  assumes "span_in req i j k"
  shows "0 < total_spans req"
proof -
  let ?rss = "elems (ResourceSpans req)"
  let ?ilss = "elems (InstrumentationLibrarySpans (?rss ! i))"
  let ?inner = "\<lambda>rs. \<Sum>ils \<leftarrow> elems (InstrumentationLibrarySpans rs). length (elems (Spans ils))"
  from assms have i: "i < length ?rss" and j: "j < length ?ilss"
    and k: "k < length (elems (Spans (?ilss ! j)))"
    by (simp_all add: span_in_def)
  from j have "length (elems (Spans (?ilss ! j))) \<in>
      set (map (\<lambda>ils. length (elems (Spans ils))) ?ilss)"
    by simp
  then have "length (elems (Spans (?ilss ! j))) \<le> ?inner (?rss ! i)"
    by (intro member_le_sum_list) auto
  with k have pos: "0 < ?inner (?rss ! i)"
    by simp
  from i have "?inner (?rss ! i) \<in> set (map ?inner ?rss)"
    by simp
  then have "?inner (?rss ! i) \<le> total_spans req"
    unfolding total_spans_def by (intro member_le_sum_list) auto
  with pos show ?thesis
    by simp
qed

lemma Export_hands_on:
  assumes "span_in req i j k"
  shows "Export r req c =
     Inr (case nextConsumer r (TracesFromInternalRep (Export_convert req)) c of
            (err, c') \<Rightarrow>
              ((case err of None \<Rightarrow> Some ExportTraceServiceResponse | Some e \<Rightarrow> None,
                err), c'))"
proof -
  from span_in_total_spans [OF assms]
  have "SpanCount (TracesFromInternalRep (Export_convert req)) = Inr (total_spans req)"
    and "total_spans req \<noteq> 0"
    by (simp_all add: TracesFromInternalRep_def SpanCount_total total_spans_Export_convert)
  then show ?thesis
    by (simp add: Export_def sendToNextConsumer_def split: prod.split option.split)
qed

lemma Export_convert_req4:
  "Export_convert req4 = req_of [span_with 2 2, span_with 0 0, span_with 1 0, span_with 2 2]"
  by (simp add: req4_def req_of_def Export_convert_def Export_rss_def Export_ils_def
      Export_span_def Export_status_def span_with_def status_consts)

text \<open>
  C2. At ingress, for every request and every span in it whose current status code is
  UNSET: \<open>Receiver.Export\<close> calls the next consumer on the converted request and
  answers with what that call returns, and in the request the consumer receives the span
  (at the same position) has the current code ERROR when its deprecated code was
  anything other than OK, and UNSET when its deprecated code was OK (the zero value, so
  also when it was never set).
\<close>

theorem Export_recovers_unset:
  assumes "span_in req i j k"
    and "Code (Status (span_at req i j k)) = Status_STATUS_CODE_UNSET"
  shows "Export r req c =
           Inr (case nextConsumer r (TracesFromInternalRep (Export_convert req)) c of
                  (err, c') \<Rightarrow>
                    ((case err of None \<Rightarrow> Some ExportTraceServiceResponse | Some e \<Rightarrow> None,
                      err), c')) \<and>
         span_in (Export_convert req) i j k \<and>
         Code (Status (span_at (Export_convert req) i j k)) =
           (if DeprecatedCode (Status (span_at req i j k)) \<noteq> Status_DEPRECATED_STATUS_CODE_OK
            then Status_STATUS_CODE_ERROR else Status_STATUS_CODE_UNSET)"
  using assms Export_hands_on [OF assms(1), of r c]
  by (simp add: span_at_Export_convert Export_span_def Export_status_unset)

text \<open>
  On the request of four spans, with a consumer that records what it is given: the
  consumer receives one batch, in which the first span (UNSET, deprecated
  UNKNOWN_ERROR) has become ERROR and the second (UNSET, deprecated OK) is still UNSET.
\<close>

theorem Export_recovers_unset_witness:
  "span_in req4 0 0 0 \<and> span_in req4 0 0 1 \<and>
   Code (Status (span_at req4 0 0 0)) = Status_STATUS_CODE_UNSET \<and>
   DeprecatedCode (Status (span_at req4 0 0 0)) = Status_DEPRECATED_STATUS_CODE_UNKNOWN_ERROR \<and>
   Code (Status (span_at (Export_convert req4) 0 0 0)) = Status_STATUS_CODE_ERROR \<and>
   Code (Status (span_at req4 0 0 1)) = Status_STATUS_CODE_UNSET \<and>
   DeprecatedCode (Status (span_at req4 0 0 1)) = Status_DEPRECATED_STATUS_CODE_OK \<and>
   Code (Status (span_at (Export_convert req4) 0 0 1)) = Status_STATUS_CODE_UNSET \<and>
   Export recording_consumer req4 [] =
     Inr ((Some ExportTraceServiceResponse, None),
          [\<lparr>orig = Some (req_of [span_with 2 2, span_with 0 0, span_with 1 0, span_with 2 2])\<rparr>])"
proof -
  have in0: "span_in req4 0 0 0" and in1: "span_in req4 0 0 1"
    by (simp_all add: req4_def span_in_req_of)
  have c0: "Code (Status (span_at req4 0 0 0)) = Status_STATUS_CODE_UNSET"
    and c1: "Code (Status (span_at req4 0 0 1)) = Status_STATUS_CODE_UNSET"
    by (simp_all add: req4_def span_at_req_of span_with_def status_consts)
  have d0: "DeprecatedCode (Status (span_at req4 0 0 0)) =
              Status_DEPRECATED_STATUS_CODE_UNKNOWN_ERROR"
    and d1: "DeprecatedCode (Status (span_at req4 0 0 1)) = Status_DEPRECATED_STATUS_CODE_OK"
    by (simp_all add: req4_def span_at_req_of span_with_def status_consts)
  note first = Export_recovers_unset [OF in0 c0, of recording_consumer "[]"]
  note second = Export_recovers_unset [OF in1 c1, of recording_consumer "[]"]
  from first have sent: "Export recording_consumer req4 [] =
      Inr ((Some ExportTraceServiceResponse, None), [\<lparr>orig = Some (Export_convert req4)\<rparr>])"
    by (simp add: recording_consumer_def TracesFromInternalRep_def)
  from first second in0 in1 c0 c1 d0 d1 sent [unfolded Export_convert_req4]
  show ?thesis by (simp add: status_consts)
qed

text \<open>
  C3. Setting the current code overwrites the deprecated code consistently. Through the
  view, \<open>SetCode v\<close> leaves the current code at \<open>v\<close> and the deprecated code at OK for
  \<open>v\<close> Unset or Ok and at UNKNOWN_ERROR for \<open>v\<close> Error. At ingress, for every span of
  the request, \<open>Receiver.Export\<close> calls the next consumer on the converted request and
  answers with what that call returns; in the request the consumer receives, a span
  that arrived with current code OK has deprecated code OK, and a span that arrived
  with current code ERROR has deprecated code UNKNOWN_ERROR.
\<close>

theorem deprecated_code_overwritten:
  "Code (SetCode ms v) = v \<and>
   (v = StatusCodeUnset \<or> v = StatusCodeOk \<longrightarrow>
      DeprecatedCode (SetCode ms v) = Status_DEPRECATED_STATUS_CODE_OK) \<and>
   (v = StatusCodeError \<longrightarrow>
      DeprecatedCode (SetCode ms v) = Status_DEPRECATED_STATUS_CODE_UNKNOWN_ERROR) \<and>
   (span_in req i j k \<longrightarrow>
      Export r req c =
        Inr (case nextConsumer r (TracesFromInternalRep (Export_convert req)) c of
               (err, c') \<Rightarrow>
                 ((case err of None \<Rightarrow> Some ExportTraceServiceResponse | Some e \<Rightarrow> None,
                   err), c')) \<and>
      span_in (Export_convert req) i j k \<and>
      (Code (Status (span_at req i j k)) = Status_STATUS_CODE_OK \<longrightarrow>
         DeprecatedCode (Status (span_at (Export_convert req) i j k)) =
           Status_DEPRECATED_STATUS_CODE_OK) \<and>
      (Code (Status (span_at req i j k)) = Status_STATUS_CODE_ERROR \<longrightarrow>
         DeprecatedCode (Status (span_at (Export_convert req) i j k)) =
           Status_DEPRECATED_STATUS_CODE_UNKNOWN_ERROR))"
proof -
  have view: "Code (SetCode ms v) = v"
    "v = StatusCodeUnset \<or> v = StatusCodeOk \<longrightarrow>
       DeprecatedCode (SetCode ms v) = Status_DEPRECATED_STATUS_CODE_OK"
    "v = StatusCodeError \<longrightarrow>
       DeprecatedCode (SetCode ms v) = Status_DEPRECATED_STATUS_CODE_UNKNOWN_ERROR"
    by (auto simp: SetCode_def Let_def status_consts)
  have sent: "span_in req i j k \<longrightarrow>
      Export r req c =
        Inr (case nextConsumer r (TracesFromInternalRep (Export_convert req)) c of
               (err, c') \<Rightarrow>
                 ((case err of None \<Rightarrow> Some ExportTraceServiceResponse | Some e \<Rightarrow> None,
                   err), c'))"
    using Export_hands_on [of req i j k r c] by blast
  have ingress: "span_in req i j k \<longrightarrow>
      span_in (Export_convert req) i j k \<and>
      (Code (Status (span_at req i j k)) = Status_STATUS_CODE_OK \<longrightarrow>
         DeprecatedCode (Status (span_at (Export_convert req) i j k)) =
           Status_DEPRECATED_STATUS_CODE_OK) \<and>
      (Code (Status (span_at req i j k)) = Status_STATUS_CODE_ERROR \<longrightarrow>
         DeprecatedCode (Status (span_at (Export_convert req) i j k)) =
           Status_DEPRECATED_STATUS_CODE_UNKNOWN_ERROR)"
    using Export_status_set [of "Status (span_at req i j k)"]
    by (simp add: span_at_Export_convert Export_span_def)
  from view sent ingress show ?thesis by blast
qed

text \<open>
  Through the view on three statuses, and at ingress on the request of four spans with
  the recording consumer: in the batch it receives, the third span (OK, deprecated 5)
  has deprecated code OK and the fourth (ERROR, deprecated OK) has UNKNOWN_ERROR.
\<close>

theorem deprecated_code_overwritten_witness:
  "DeprecatedCode (SetCode \<lparr>DeprecatedCode = 7, Message = [], Code = 2\<rparr> StatusCodeUnset)
     = Status_DEPRECATED_STATUS_CODE_OK \<and>
   DeprecatedCode (SetCode \<lparr>DeprecatedCode = 7, Message = [], Code = 2\<rparr> StatusCodeOk)
     = Status_DEPRECATED_STATUS_CODE_OK \<and>
   DeprecatedCode (SetCode \<lparr>DeprecatedCode = 7, Message = [], Code = 0\<rparr> StatusCodeError)
     = Status_DEPRECATED_STATUS_CODE_UNKNOWN_ERROR \<and>
   span_in req4 0 0 2 \<and> Code (Status (span_at req4 0 0 2)) = Status_STATUS_CODE_OK \<and>
   DeprecatedCode (Status (span_at req4 0 0 2)) = 5 \<and>
   DeprecatedCode (Status (span_at (Export_convert req4) 0 0 2))
     = Status_DEPRECATED_STATUS_CODE_OK \<and>
   span_in req4 0 0 3 \<and> Code (Status (span_at req4 0 0 3)) = Status_STATUS_CODE_ERROR \<and>
   DeprecatedCode (Status (span_at req4 0 0 3)) = 0 \<and>
   DeprecatedCode (Status (span_at (Export_convert req4) 0 0 3))
     = Status_DEPRECATED_STATUS_CODE_UNKNOWN_ERROR \<and>
   Export recording_consumer req4 [\<lparr>orig = None\<rparr>] =
     Inr ((Some ExportTraceServiceResponse, None),
          [\<lparr>orig = None\<rparr>,
           \<lparr>orig = Some (req_of [span_with 2 2, span_with 0 0, span_with 1 0, span_with 2 2])\<rparr>])"
proof -
  have in2: "span_in req4 0 0 2" and in3: "span_in req4 0 0 3"
    by (simp_all add: req4_def span_in_req_of)
  have c2: "Code (Status (span_at req4 0 0 2)) = Status_STATUS_CODE_OK"
    and c3: "Code (Status (span_at req4 0 0 3)) = Status_STATUS_CODE_ERROR"
    and d2: "DeprecatedCode (Status (span_at req4 0 0 2)) = 5"
    and d3: "DeprecatedCode (Status (span_at req4 0 0 3)) = 0"
    by (simp_all add: req4_def span_at_req_of span_with_def status_consts)
  note a = deprecated_code_overwritten
    [where ms = "\<lparr>DeprecatedCode = 7, Message = [], Code = 2\<rparr>" and v = StatusCodeUnset
       and req = req4 and i = 0 and j = 0 and k = 2
       and r = recording_consumer and c = "[\<lparr>orig = None\<rparr>]"]
  note b = deprecated_code_overwritten
    [where ms = "\<lparr>DeprecatedCode = 7, Message = [], Code = 2\<rparr>" and v = StatusCodeOk
       and req = req4 and i = 0 and j = 0 and k = 3
       and r = recording_consumer and c = "[\<lparr>orig = None\<rparr>]"]
  note c = deprecated_code_overwritten
    [where ms = "\<lparr>DeprecatedCode = 7, Message = [], Code = 0\<rparr>" and v = StatusCodeError
       and req = req4 and i = 0 and j = 0 and k = 3
       and r = recording_consumer and c = "[\<lparr>orig = None\<rparr>]"]
  from a in2 have sent: "Export recording_consumer req4 [\<lparr>orig = None\<rparr>] =
      Inr ((Some ExportTraceServiceResponse, None),
           [\<lparr>orig = None\<rparr>, \<lparr>orig = Some (Export_convert req4)\<rparr>])"
    by (simp add: recording_consumer_def TracesFromInternalRep_def)
  from a b c in2 in3 c2 c3 d2 d3 sent [unfolded Export_convert_req4]
  show ?thesis by simp
qed




section \<open>Decoding failures\<close>

text \<open>
  C5. When \<open>Unmarshal\<close> fails, \<open>TracesFromOtlpProtoBytes\<close> returns that error and
  the invalid zero-value \<open>Traces\<close> (nil pointer), whatever the decoder had filled in;
  the result is not a successful return, and its tree is not the empty tree of
  \<open>NewTraces\<close>.
\<close>

theorem TracesFromOtlpProtoBytes_failure:
  assumes "snd (Unmarshal \<lparr>ResourceSpans = None\<rparr> data) = Some err"
  shows "TracesFromOtlpProtoBytes Unmarshal data = (\<lparr>orig = None\<rparr>, Some err) \<and>
         snd (TracesFromOtlpProtoBytes Unmarshal data) \<noteq> None \<and>
         fst (TracesFromOtlpProtoBytes Unmarshal data) \<noteq> NewTraces"
proof -
  obtain req where "Unmarshal \<lparr>ResourceSpans = None\<rparr> data = (req, Some err)"
    using assms by (cases "Unmarshal \<lparr>ResourceSpans = None\<rparr> data") simp
  then show ?thesis
    by (simp add: TracesFromOtlpProtoBytes_def NewTraces_def)
qed

theorem TracesFromOtlpProtoBytes_failure_witness:
  "snd (failing_Unmarshal \<lparr>ResourceSpans = None\<rparr> [10, 5]) = Some (Error ''unexpected EOF'') \<and>
   fst (failing_Unmarshal \<lparr>ResourceSpans = None\<rparr> [10, 5]) \<noteq> \<lparr>ResourceSpans = None\<rparr> \<and>
   TracesFromOtlpProtoBytes failing_Unmarshal [10, 5] =
     (\<lparr>orig = None\<rparr>, Some (Error ''unexpected EOF''))"
proof -
  have h: "snd (failing_Unmarshal \<lparr>ResourceSpans = None\<rparr> [10, 5]) =
             Some (Error ''unexpected EOF'')"
    by (simp add: failing_Unmarshal_def)
  from TracesFromOtlpProtoBytes_failure
      [of failing_Unmarshal "[10, 5]" "Error ''unexpected EOF''"] h
  show ?thesis
    by (simp add: failing_Unmarshal_def)
qed

section \<open>The empty batch\<close>

text \<open>
  C9. For a request whose span count is zero, \<open>Export\<close> returns the empty response and
  no error, and the state of the next consumer is the one it started with: for every
  consumer, so also for one that would change its state or fail on each call, hence
  \<open>ConsumeTraces\<close> is not called.
\<close>

theorem Export_empty_batch:
  assumes "SpanCount (TracesFromInternalRep req) = Inr 0"
  shows "Export r req c = Inr ((Some ExportTraceServiceResponse, None), c)"
proof -
  from assms have "total_spans req = 0"
    by (simp add: TracesFromInternalRep_def SpanCount_total)
  then have "SpanCount (TracesFromInternalRep (Export_convert req)) = Inr 0"
    by (simp add: TracesFromInternalRep_def SpanCount_total total_spans_Export_convert)
  then show ?thesis
    by (simp add: Export_def sendToNextConsumer_def)
qed

theorem Export_empty_batch_witness:
  "SpanCount (TracesFromInternalRep (req_of [])) = Inr 0 \<and>
   Export counting_consumer (req_of []) 0 = Inr ((Some ExportTraceServiceResponse, None), 0) \<and>
   Export counting_consumer (req_of [zero_Span]) 0 = Inr ((None, Some (Error ''rejected'')), 1)"
proof -
  have h: "SpanCount (TracesFromInternalRep (req_of [])) = Inr 0"
    by (simp add: TracesFromInternalRep_def SpanCount_total total_spans_def req_of_def elems_def)
  have "total_spans (req_of [zero_Span]) = 1"
    by (simp add: total_spans_def req_of_def elems_def)
  then have one: "SpanCount (TracesFromInternalRep (Export_convert (req_of [zero_Span]))) = Inr 1"
    by (simp add: TracesFromInternalRep_def SpanCount_total total_spans_Export_convert)
  have called: "Export counting_consumer (req_of [zero_Span]) 0 =
      Inr ((None, Some (Error ''rejected'')), 1)"
    by (simp add: Export_def sendToNextConsumer_def one counting_consumer_def)
  from Export_empty_batch [OF h, of counting_consumer 0] h called show ?thesis
    by simp
qed

section \<open>The generated metrics\<close>

lemma Len_set_At [simp]: "Len (set_At es i x) = Len es"
  by (cases es) (simp_all add: Len_def set_At_def elems_def)

lemma elems_set_At [simp]: "elems (set_At es i x) = (elems es)[i := x]"
  by (cases es) (simp_all add: set_At_def elems_def)

lemma At_in_range: "i < Len es \<Longrightarrow> At es i = Inr (elems es ! i)"
  by (simp add: At_def Len_def)

lemma then_do_Inr [simp]: "then_do (Inr x) f = f x"
  by (simp add: then_do_def)

lemma then_do_Inl [simp]: "then_do (Inl p) f = Inl p"
  by (simp add: then_do_def)

lemma Len_Resize: "0 \<le> n \<Longrightarrow> \<exists>es'. Resize z es n = Inr es' \<and> Len es' = nat n"
  by (auto simp: Resize_def Len_def elems_def)

lemma GenerateMetrics_points_Len:
  "Len dps = dataPointsPerMetric \<Longrightarrow>
   \<exists>dps' w'. GenerateMetrics_points now b dps j w = Inr (dps', w') \<and>
             Len dps' = dataPointsPerMetric"
proof (induction "dataPointsPerMetric - j" arbitrary: dps j w)
  case 0
  then show ?case
    by (subst GenerateMetrics_points.simps) simp
next
  case (Suc d)
  then have j: "j < dataPointsPerMetric" by simp
  with Suc.prems have at: "At dps j = Inr (elems dps ! j)"
    by (simp add: At_in_range)
  have d: "d = dataPointsPerMetric - (j + 1)"
    using Suc.hyps(2) by simp
  show ?case
    using j at Suc.hyps(1) [OF d] Suc.prems
    by (subst GenerateMetrics_points.simps) (simp add: Let_def)
qed

lemma GenerateMetrics_metric_gauge:
  "\<exists>m' w'. GenerateMetrics_metric now i m w = Inr (m', w') \<and>
           is_IntGauge_of dataPointsPerMetric m'"
proof -
  obtain dps where r: "Resize zero_IntDataPoint None (int dataPointsPerMetric) = Inr dps"
    and l: "Len dps = dataPointsPerMetric"
    using Len_Resize [of "int dataPointsPerMetric" zero_IntDataPoint None] by auto
  from GenerateMetrics_points_Len [OF l]
  obtain dps' w' where
    "GenerateMetrics_points now (batchesGenerated w + 1) dps 0
       (w\<lparr>batchesGenerated := batchesGenerated w + 1\<rparr>) = Inr (dps', w')"
    "Len dps' = dataPointsPerMetric"
    by blast
  then show ?thesis
    using r
    by (simp add: GenerateMetrics_metric_def Let_def SetDataType_def Metric_IntGauge_view_def
        is_IntGauge_of_def)
qed

lemma GenerateMetrics_metrics_gauges:
  "Len ms = nat n \<Longrightarrow> i \<le> nat n \<Longrightarrow>
   \<forall>k < i. is_IntGauge_of dataPointsPerMetric (elems ms ! k) \<Longrightarrow>
   \<exists>ms' w'. GenerateMetrics_metrics now n ms i w = Inr (ms', w') \<and> Len ms' = nat n \<and>
     (\<forall>k < nat n. is_IntGauge_of dataPointsPerMetric (elems ms' ! k))"
proof (induction "nat n - i" arbitrary: ms i w)
  case 0
  then have "i = nat n" by simp
  with 0 show ?case
    by (subst GenerateMetrics_metrics.simps) simp
next
  case (Suc d)
  then have i: "i < nat n" by simp
  then have cond: "int i < n" by simp
  from i Suc.prems have at: "At ms i = Inr (elems ms ! i)"
    by (simp add: At_in_range)
  obtain m' w1 where body: "GenerateMetrics_metric now i (elems ms ! i) w = Inr (m', w1)"
    and g: "is_IntGauge_of dataPointsPerMetric m'"
    using GenerateMetrics_metric_gauge by blast
  have d: "d = nat n - (i + 1)"
    using Suc.hyps(2) by simp
  have len: "Len (set_At ms i m') = nat n"
    using Suc.prems by simp
  have inv: "\<forall>k < i + 1. is_IntGauge_of dataPointsPerMetric (elems (set_At ms i m') ! k)"
  proof (intro allI impI)
    fix k assume "k < i + 1"
    then consider "k < i" | "k = i" by linarith
    then show "is_IntGauge_of dataPointsPerMetric (elems (set_At ms i m') ! k)"
    proof cases
      case 1
      then show ?thesis using Suc.prems(3) by simp
    next
      case 2
      then show ?thesis using g i Suc.prems(1) by (simp add: Len_def)
    qed
  qed
  from Suc.hyps(1) [OF d len _ inv, of w1] i
  obtain ms' w' where
    "GenerateMetrics_metrics now n (set_At ms i m') (i + 1) w1 = Inr (ms', w')"
    "Len ms' = nat n" "\<forall>k < nat n. is_IntGauge_of dataPointsPerMetric (elems ms' ! k)"
    by auto
  then show ?case
    using cond at body
    by (subst GenerateMetrics_metrics.simps) simp
qed

lemma dataPointCount_of_IntGauge: "is_IntGauge_of n m \<Longrightarrow> dataPointCount_of m = n"
  by (auto simp: is_IntGauge_of_def dataPointCount_of_def split: Metric_Data.splits)

lemma is_IntGauge_ofD:
  "is_IntGauge_of n m \<Longrightarrow> \<exists>g. Data m = Metric_IntGauge g \<and> length (elems (IntGauge_DataPoints g)) = n"
  by (cases "Data m") (simp_all add: is_IntGauge_of_def Len_def)

lemma sum_dataPointCount:
  "\<forall>m \<in> set xs. is_IntGauge_of n m \<Longrightarrow> (\<Sum>m \<leftarrow> xs. dataPointCount_of m) = n * length xs"
  by (induction xs) (simp_all add: dataPointCount_of_IntGauge)

text \<open>
  C8. With \<open>ItemsPerBatch = n\<close> (a count, \<open>n \<ge> 0\<close>), \<open>GenerateMetrics\<close> returns,
  whatever the attributes, the counters and the clock, a tree of exactly one
  \<open>ResourceMetrics\<close> with one \<open>InstrumentationLibraryMetrics\<close> group of exactly \<open>n\<close>
  metrics, each of the IntGauge variant with exactly 7 data points; its metric count is
  \<open>n\<close> and its data point count \<open>7 n\<close>, so for \<open>n = 1\<close> they are 1 and 7.
\<close>

theorem GenerateMetrics_shape:
  assumes "0 \<le> ItemsPerBatch (options dp)"
  shows "\<exists>req rm ilm w'.
     GenerateMetrics now dp w = Inr ((\<lparr>Metrics_orig = Some req\<rparr>, False), w') \<and>
     elems (ResourceMetrics req) = [rm] \<and>
     elems (InstrumentationLibraryMetrics rm) = [ilm] \<and>
     length (elems (Metrics ilm)) = nat (ItemsPerBatch (options dp)) \<and>
     (\<forall>m \<in> set (elems (Metrics ilm)).
        \<exists>g. Data m = Metric_IntGauge g \<and> length (elems (IntGauge_DataPoints g)) = 7) \<and>
     MetricAndDataPointCount \<lparr>Metrics_orig = Some req\<rparr> =
       Inr (nat (ItemsPerBatch (options dp)), 7 * nat (ItemsPerBatch (options dp))) \<and>
     (ItemsPerBatch (options dp) = 1 \<longrightarrow>
        MetricAndDataPointCount \<lparr>Metrics_orig = Some req\<rparr> = Inr (1, 7))"
proof -
  let ?n = "ItemsPerBatch (options dp)"
  obtain ms0 where r: "Resize zero_Metric None ?n = Inr ms0" and l0: "Len ms0 = nat ?n"
    using Len_Resize [OF assms, of zero_Metric None] by auto
  from GenerateMetrics_metrics_gauges [OF l0, of 0 now w]
  obtain ms w' where loop: "GenerateMetrics_metrics now ?n ms0 0 w = Inr (ms, w')"
    and len: "Len ms = nat ?n"
    and all: "\<forall>k < nat ?n. is_IntGauge_of dataPointsPerMetric (elems ms ! k)"
    by auto
  have each: "\<forall>m \<in> set (elems ms). is_IntGauge_of 7 m"
    using all len by (auto simp: in_set_conv_nth Len_def dataPointsPerMetric_def)
  define rm1 where "rm1 =
    (case LoadOptions_Attributes (options dp) of
       None \<Rightarrow> zero_ResourceMetrics
     | Some kvs \<Rightarrow>
         zero_ResourceMetrics\<lparr>RM_Resource := \<lparr>ResourceAttributes =
           fold (\<lambda>(k, v) attrs. UpsertString attrs k v) kvs
             (InitEmptyWithCapacity (length kvs))\<rparr>\<rparr>)"
  define ilm where "ilm = zero_InstrumentationLibraryMetrics\<lparr>Metrics := ms\<rparr>"
  define rm where "rm = rm1\<lparr>InstrumentationLibraryMetrics := Some [ilm]\<rparr>"
  define req where "req = \<lparr>ResourceMetrics = Some [rm]\<rparr>"
  have r1: "Resize zero_ResourceMetrics None 1 = Inr (Some [zero_ResourceMetrics])"
    by (simp add: Resize_def elems_def)
  have r2: "Resize zero_InstrumentationLibraryMetrics
              (InstrumentationLibraryMetrics zero_ResourceMetrics) 1 =
            Inr (Some [zero_InstrumentationLibraryMetrics])"
    by (simp add: Resize_def elems_def zero_ResourceMetrics_def)
  have a0: "At (Some [x]) 0 = Inr x" for x :: 'a
    by (simp add: At_def elems_def)
  have m0: "Metrics zero_InstrumentationLibraryMetrics = None"
    by (simp add: zero_InstrumentationLibraryMetrics_def)
  have run: "GenerateMetrics now dp w = Inr ((\<lparr>Metrics_orig = Some req\<rparr>, False), w')"
    by (simp add: GenerateMetrics_def r1 r2 a0 m0 r loop set_At_def Let_def
        req_def rm_def ilm_def rm1_def)
  have s1: "elems (ResourceMetrics req) = [rm]"
    by (simp add: req_def elems_def)
  have s2: "elems (InstrumentationLibraryMetrics rm) = [ilm]"
    by (simp add: rm_def elems_def)
  have s3: "length (elems (Metrics ilm)) = nat ?n"
    using len by (simp add: ilm_def Len_def)
  have s4: "\<forall>m \<in> set (elems (Metrics ilm)).
        \<exists>g. Data m = Metric_IntGauge g \<and> length (elems (IntGauge_DataPoints g)) = 7"
    using each by (simp add: ilm_def is_IntGauge_ofD)
  have s5: "MetricAndDataPointCount \<lparr>Metrics_orig = Some req\<rparr> = Inr (nat ?n, 7 * nat ?n)"
    using s3 sum_dataPointCount [OF each]
    by (simp add: MetricAndDataPointCount_def s1 s2 ilm_def Len_def)
  from run s1 s2 s3 s4 s5 show ?thesis
    by auto
qed

theorem GenerateMetrics_shape_witness:
  "0 \<le> ItemsPerBatch (options perf1) \<and>
   (\<exists>md w'. GenerateMetrics (\<lambda>n. of_nat n) perf1 world0 = Inr ((md, False), w') \<and>
      MetricAndDataPointCount md = Inr (1, 7))"
proof -
  have h: "0 \<le> ItemsPerBatch (options perf1)" and one: "ItemsPerBatch (options perf1) = 1"
    by (simp_all add: perf1_def)
  from GenerateMetrics_shape [OF h, of "\<lambda>n. of_nat n" world0] one h show ?thesis
    by auto
qed

section \<open>Cloning is a deep copy\<close>

lemma load_append: "a < length h \<Longrightarrow> load (h @ e) a = load h a"
  by (simp add: load_def nth_append)

lemma load_lt: "load h a = Some ob \<Longrightarrow> a < length h"
  by (simp add: load_def split: if_splits)

lemma load_new: "load (h @ [ob]) (length h) = Some ob"
  by (simp add: load_def)

lemma load_store_other: "a \<noteq> c \<Longrightarrow> load (store h c ob) a = load h a"
  by (simp add: load_def store_def)

lemma load_store_same: "c < length h \<Longrightarrow> load (store h c ob) c = Some ob"
  by (simp add: load_def store_def)

lemma those_map_Some_iff:
  "those (map f as) = Some vs \<longleftrightarrow> map f as = map Some vs"
proof (induction as arbitrary: vs)
  case Nil
  then show ?case by auto
next
  case (Cons a as)
  show ?case
  proof (cases "f a")
    case None
    then show ?thesis by (cases vs) auto
  next
    case (Some v)
    then show ?thesis using Cons.IH
      by (cases vs) (auto simp: map_eq_Cons_conv)
  qed
qed

lemma those_map_cong:
  "those (map f as) = Some vs \<Longrightarrow> (\<And>a. a \<in> set as \<Longrightarrow> f a \<noteq> None \<Longrightarrow> g a = f a) \<Longrightarrow>
   those (map g as) = Some vs"
proof -
  assume t: "those (map f as) = Some vs" and c: "\<And>a. a \<in> set as \<Longrightarrow> f a \<noteq> None \<Longrightarrow> g a = f a"
  from t have m: "map f as = map Some vs" by (simp add: those_map_Some_iff)
  have "f a \<noteq> None" if "a \<in> set as" for a
  proof -
    from that have "f a \<in> set (map Some vs)" using m by (metis image_eqI set_map)
    then show ?thesis by auto
  qed
  then have "map g as = map f as" using c by simp
  with m show ?thesis by (simp add: those_map_Some_iff)
qed

lemma tree_slice_cong:
  assumes "tree_slice f s = Some vs"
    and "\<And>a. a \<in> set (elems s) \<Longrightarrow> f a \<noteq> None \<Longrightarrow> g a = f a"
  shows "tree_slice g s = Some vs"
proof (cases s)
  case None
  with assms(1) show ?thesis by (simp add: tree_slice_def)
next
  case (Some as)
  with assms(1) obtain ws where ws: "those (map f as) = Some ws" and vs: "vs = Some ws"
    by (auto simp: tree_slice_def)
  have "those (map g as) = Some ws"
  proof (rule those_map_cong [OF ws])
    fix a assume "a \<in> set as" "f a \<noteq> None"
    with assms(2) [of a] Some show "g a = f a" by (simp add: elems_def)
  qed
  with Some vs show ?thesis by (simp add: tree_slice_def)
qed

lemma tree_slice_defined:
  assumes "tree_slice f s = Some vs" and "a \<in> set (elems s)"
  shows "f a \<noteq> None"
proof (cases s)
  case None
  with assms(2) show ?thesis by (simp add: elems_def)
next
  case (Some as)
  with assms(1) obtain ws where "map f as = map Some ws"
    by (auto simp: tree_slice_def those_map_Some_iff)
  moreover from Some assms(2) have "a \<in> set as" by (simp add: elems_def)
  ultimately have "f a \<in> set (map Some ws)" by (metis image_eqI set_map)
  then show ?thesis by auto
qed

lemma tree_Span_cong:
  "tree_Span h a = Some s \<Longrightarrow> load h' a = load h a \<Longrightarrow> tree_Span h' a = Some s"
  by (simp add: tree_Span_def)

lemma tree_Span_SomeD: "tree_Span h a = Some s \<Longrightarrow> load h a = Some (SpanObj s)"
proof (cases "load h a")
  case None
  then show "tree_Span h a = Some s \<Longrightarrow> ?thesis" by (simp add: tree_Span_def)
next
  case (Some ob)
  then show "tree_Span h a = Some s \<Longrightarrow> ?thesis"
    by (cases ob) (simp_all add: tree_Span_def)
qed

lemma tree_Span_dom: "tree_Span h a = Some s \<Longrightarrow> a < length h"
  by (auto dest!: tree_Span_SomeD load_lt)

lemma tree_ILS_SomeD:
  assumes "tree_InstrumentationLibrarySpans h a = Some v"
  shows "\<exists>il ss spans. load h a = Some (InstrumentationLibrarySpansObj il ss) \<and>
           tree_slice (tree_Span h) ss = Some spans \<and>
           v = \<lparr>InstrumentationLibrary = il, Spans = spans\<rparr>"
proof (cases "load h a")
  case None
  with assms show ?thesis by (simp add: tree_InstrumentationLibrarySpans_def)
next
  case (Some ob)
  with assms show ?thesis
    by (cases ob) (auto simp: tree_InstrumentationLibrarySpans_def)
qed

lemma tree_ILS_dom:
  assumes "tree_InstrumentationLibrarySpans h a = Some v"
    and "x \<in> set (cells_InstrumentationLibrarySpans h a)"
  shows "x < length h"
proof -
  from tree_ILS_SomeD [OF assms(1)] obtain il ss spans where
    l: "load h a = Some (InstrumentationLibrarySpansObj il ss)"
    and t: "tree_slice (tree_Span h) ss = Some spans"
    by blast
  from assms(2) l consider "x = a" | "x \<in> set (elems ss)"
    by (auto simp: cells_InstrumentationLibrarySpans_def)
  then show ?thesis
  proof cases
    case 1
    with l show ?thesis by (simp add: load_lt)
  next
    case 2
    from tree_slice_defined [OF t 2] show ?thesis
      by (auto dest: tree_Span_dom)
  qed
qed

lemma tree_ILS_cong:
  assumes "tree_InstrumentationLibrarySpans h a = Some v"
    and "\<And>x. x \<in> set (cells_InstrumentationLibrarySpans h a) \<Longrightarrow> load h' x = load h x"
  shows "tree_InstrumentationLibrarySpans h' a = Some v \<and>
         cells_InstrumentationLibrarySpans h' a = cells_InstrumentationLibrarySpans h a"
proof -
  from tree_ILS_SomeD [OF assms(1)] obtain il ss spans where
    l: "load h a = Some (InstrumentationLibrarySpansObj il ss)"
    and t: "tree_slice (tree_Span h) ss = Some spans"
    and v: "v = \<lparr>InstrumentationLibrary = il, Spans = spans\<rparr>"
    by blast
  have l': "load h' a = load h a"
    by (rule assms(2)) (simp add: cells_InstrumentationLibrarySpans_def)
  have "tree_slice (tree_Span h') ss = Some spans"
  proof (rule tree_slice_cong [OF t])
    fix x assume x: "x \<in> set (elems ss)" and d: "tree_Span h x \<noteq> None"
    have "load h' x = load h x"
      by (rule assms(2)) (simp add: cells_InstrumentationLibrarySpans_def l x)
    with d show "tree_Span h' x = tree_Span h x"
      by (auto simp: tree_Span_def)
  qed
  with l l' v show ?thesis
    by (simp add: tree_InstrumentationLibrarySpans_def cells_InstrumentationLibrarySpans_def)
qed

lemma tree_RS_SomeD:
  assumes "tree_ResourceSpans h a = Some v"
  shows "\<exists>r es xs. load h a = Some (ResourceSpansObj r es) \<and>
           tree_slice (tree_InstrumentationLibrarySpans h) es = Some xs \<and> v = \<lparr>Resource = r, InstrumentationLibrarySpans = xs\<rparr>"
proof (cases "load h a")
  case None
  with assms show ?thesis by (simp add: tree_ResourceSpans_def)
next
  case (Some ob)
  with assms show ?thesis
    by (cases ob) (auto simp: tree_ResourceSpans_def)
qed

lemma tree_RS_dom:
  assumes "tree_ResourceSpans h a = Some v" and "x \<in> set (cells_ResourceSpans h a)"
  shows "x < length h"
proof -
  from tree_RS_SomeD [OF assms(1)] obtain r es xs where
    l: "load h a = Some (ResourceSpansObj r es)"
    and t: "tree_slice (tree_InstrumentationLibrarySpans h) es = Some xs"
    by blast
  from assms(2) l consider "x = a" | b where "b \<in> set (elems es)" "x \<in> set (cells_InstrumentationLibrarySpans h b)"
    by (auto simp: cells_ResourceSpans_def)
  then show ?thesis
  proof cases
    case 1
    with l show ?thesis by (simp add: load_lt)
  next
    case 2
    from tree_slice_defined [OF t 2(1)] obtain w where "tree_InstrumentationLibrarySpans h b = Some w"
      by auto
    from tree_ILS_dom [OF this 2(2)] show ?thesis .
  qed
qed

lemma tree_RS_cong:
  assumes "tree_ResourceSpans h a = Some v"
    and "\<And>x. x \<in> set (cells_ResourceSpans h a) \<Longrightarrow> load h' x = load h x"
  shows "tree_ResourceSpans h' a = Some v \<and> cells_ResourceSpans h' a = cells_ResourceSpans h a"
proof -
  from tree_RS_SomeD [OF assms(1)] obtain r es xs where
    l: "load h a = Some (ResourceSpansObj r es)"
    and t: "tree_slice (tree_InstrumentationLibrarySpans h) es = Some xs"
    and v: "v = \<lparr>Resource = r, InstrumentationLibrarySpans = xs\<rparr>"
    by blast
  have l': "load h' a = load h a"
    by (rule assms(2)) (simp add: cells_ResourceSpans_def)
  have sub: "tree_InstrumentationLibrarySpans h' b = tree_InstrumentationLibrarySpans h b \<and> cells_InstrumentationLibrarySpans h' b = cells_InstrumentationLibrarySpans h b"
    if b: "b \<in> set (elems es)" for b
  proof -
    from tree_slice_defined [OF t b] obtain w where w: "tree_InstrumentationLibrarySpans h b = Some w"
      by auto
    have "load h' x = load h x" if "x \<in> set (cells_InstrumentationLibrarySpans h b)" for x
      by (rule assms(2)) (use that b l in \<open>auto simp: cells_ResourceSpans_def\<close>)
    from tree_ILS_cong [OF w this] w show ?thesis
      by simp
  qed
  have "tree_slice (tree_InstrumentationLibrarySpans h') es = Some xs"
    by (rule tree_slice_cong [OF t]) (simp add: sub)
  moreover have "concat (map (cells_InstrumentationLibrarySpans h') (elems es)) = concat (map (cells_InstrumentationLibrarySpans h) (elems es))"
    by (rule arg_cong [where f = concat], rule map_cong) (simp_all add: sub)
  ultimately show ?thesis
    using l l' v by (simp add: tree_ResourceSpans_def cells_ResourceSpans_def)
qed

lemma tree_Request_SomeD:
  assumes "tree_Request h a = Some v"
  shows "\<exists>es xs. load h a = Some (RequestObj es) \<and>
           tree_slice (tree_ResourceSpans h) es = Some xs \<and> v = \<lparr>ResourceSpans = xs\<rparr>"
proof (cases "load h a")
  case None
  with assms show ?thesis by (simp add: tree_Request_def)
next
  case (Some ob)
  with assms show ?thesis
    by (cases ob) (auto simp: tree_Request_def)
qed

lemma tree_Request_dom:
  assumes "tree_Request h a = Some v" and "x \<in> set (cells_Request h a)"
  shows "x < length h"
proof -
  from tree_Request_SomeD [OF assms(1)] obtain es xs where
    l: "load h a = Some (RequestObj es)"
    and t: "tree_slice (tree_ResourceSpans h) es = Some xs"
    by blast
  from assms(2) l consider "x = a" | b where "b \<in> set (elems es)" "x \<in> set (cells_ResourceSpans h b)"
    by (auto simp: cells_Request_def)
  then show ?thesis
  proof cases
    case 1
    with l show ?thesis by (simp add: load_lt)
  next
    case 2
    from tree_slice_defined [OF t 2(1)] obtain w where "tree_ResourceSpans h b = Some w"
      by auto
    from tree_RS_dom [OF this 2(2)] show ?thesis .
  qed
qed

lemma tree_Request_cong:
  assumes "tree_Request h a = Some v"
    and "\<And>x. x \<in> set (cells_Request h a) \<Longrightarrow> load h' x = load h x"
  shows "tree_Request h' a = Some v \<and> cells_Request h' a = cells_Request h a"
proof -
  from tree_Request_SomeD [OF assms(1)] obtain es xs where
    l: "load h a = Some (RequestObj es)"
    and t: "tree_slice (tree_ResourceSpans h) es = Some xs"
    and v: "v = \<lparr>ResourceSpans = xs\<rparr>"
    by blast
  have l': "load h' a = load h a"
    by (rule assms(2)) (simp add: cells_Request_def)
  have sub: "tree_ResourceSpans h' b = tree_ResourceSpans h b \<and> cells_ResourceSpans h' b = cells_ResourceSpans h b"
    if b: "b \<in> set (elems es)" for b
  proof -
    from tree_slice_defined [OF t b] obtain w where w: "tree_ResourceSpans h b = Some w"
      by auto
    have "load h' x = load h x" if "x \<in> set (cells_ResourceSpans h b)" for x
      by (rule assms(2)) (use that b l in \<open>auto simp: cells_Request_def\<close>)
    from tree_RS_cong [OF w this] w show ?thesis
      by simp
  qed
  have "tree_slice (tree_ResourceSpans h') es = Some xs"
    by (rule tree_slice_cong [OF t]) (simp add: sub)
  moreover have "concat (map (cells_ResourceSpans h') (elems es)) = concat (map (cells_ResourceSpans h) (elems es))"
    by (rule arg_cong [where f = concat], rule map_cong) (simp_all add: sub)
  ultimately show ?thesis
    using l l' v by (simp add: tree_Request_def cells_Request_def)
qed

lemma those_map_Cons:
  "those (map f (a # as)) = Some vs \<longleftrightarrow>
     (\<exists>v ws. f a = Some v \<and> those (map f as) = Some ws \<and> vs = v # ws)"
  by (cases "f a"; cases "those (map f as)") auto

lemma copy_elems_deep:
  assumes step: "\<forall>h a v. T h a = Some v \<longrightarrow>
      (\<exists>a' e. f h a = Inr (a', h @ e) \<and> T (h @ e) a' = Some (N v) \<and>
        set (C (h @ e) a') \<subseteq> {length h ..< length (h @ e)})"
    and cong: "\<forall>h h' a v. T h a = Some v \<and> (\<forall>x \<in> set (C h a). load h' x = load h x) \<longrightarrow>
      T h' a = Some v \<and> C h' a = C h a"
    and dom: "\<forall>h a v. T h a = Some v \<longrightarrow> (\<forall>x \<in> set (C h a). x < length h)"
  shows "those (map (T h) as) = Some vs \<Longrightarrow>
     \<exists>as' e. copy_elems f h as = Inr (as', h @ e) \<and>
       those (map (T (h @ e)) as') = Some (map N vs) \<and>
       (\<forall>a' \<in> set as'. set (C (h @ e) a') \<subseteq> {length h ..< length (h @ e)})"
proof (induction as arbitrary: h vs)
  case Nil
  then have "copy_elems f h [] = Inr ([], h @ [])" "vs = []"
    by auto
  then show ?case
    by (intro exI [of _ "[]"]) simp
next
  case (Cons a as)
  have ext: "T (h @ e) b = Some w \<and> C (h @ e) b = C h b" if "T h b = Some w" for h e b w
  proof -
    from dom that have "\<forall>x \<in> set (C h b). x < length h"
      by blast
    then have "\<forall>x \<in> set (C h b). load (h @ e) x = load h x"
      by (simp add: load_append)
    with cong that show ?thesis by blast
  qed
  from Cons.prems obtain v ws where v: "T h a = Some v"
    and ws: "those (map (T h) as) = Some ws" and vs: "vs = v # ws"
    unfolding those_map_Cons by blast
  from step v obtain a' e1 where f: "f h a = Inr (a', h @ e1)"
    and ta: "T (h @ e1) a' = Some (N v)"
    and ca: "set (C (h @ e1) a') \<subseteq> {length h ..< length (h @ e1)}"
    by blast
  have "those (map (T (h @ e1)) as) = Some ws"
  proof (rule those_map_cong [OF ws])
    fix b assume "T h b \<noteq> None"
    then obtain w where "T h b = Some w" by auto
    from ext [OF this] this show "T (h @ e1) b = T h b" by simp
  qed
  from Cons.IH [OF this] obtain as' e2 where
    rest: "copy_elems f (h @ e1) as = Inr (as', (h @ e1) @ e2)"
    and tas: "those (map (T ((h @ e1) @ e2)) as') = Some (map N ws)"
    and cas: "\<forall>b \<in> set as'. set (C ((h @ e1) @ e2) b) \<subseteq>
                {length (h @ e1) ..< length ((h @ e1) @ e2)}"
    by blast
  from ext [OF ta, of e2] have ta2: "T ((h @ e1) @ e2) a' = Some (N v)"
    and ca2: "C ((h @ e1) @ e2) a' = C (h @ e1) a'"
    by simp_all
  have run: "copy_elems f h (a # as) = Inr (a' # as', h @ (e1 @ e2))"
    using f rest by simp
  have trees: "those (map (T (h @ (e1 @ e2))) (a' # as')) = Some (map N vs)"
    using ta2 tas vs by simp
  have fresh: "\<forall>b \<in> set (a' # as'). set (C (h @ (e1 @ e2)) b) \<subseteq>
                {length h ..< length (h @ (e1 @ e2))}"
  proof
    fix b assume "b \<in> set (a' # as')"
    then consider "b = a'" | "b \<in> set as'" by auto
    then show "set (C (h @ (e1 @ e2)) b) \<subseteq> {length h ..< length (h @ (e1 @ e2))}"
    proof cases
      case 1
      with ca ca2 show ?thesis by auto
    next
      case 2
      with cas have "set (C ((h @ e1) @ e2) b) \<subseteq>
                {length (h @ e1) ..< length ((h @ e1) @ e2)}" by blast
      then show ?thesis by auto
    qed
  qed
  from run trees fresh show ?case by blast
qed

lemma slice_CopyTo_deep:
  assumes step: "\<forall>h a v. T h a = Some v \<longrightarrow>
      (\<exists>a' e. f h a = Inr (a', h @ e) \<and> T (h @ e) a' = Some (N v) \<and>
        set (C (h @ e) a') \<subseteq> {length h ..< length (h @ e)})"
    and cong: "\<forall>h h' a v. T h a = Some v \<and> (\<forall>x \<in> set (C h a). load h' x = load h x) \<longrightarrow>
      T h' a = Some v \<and> C h' a = C h a"
    and dom: "\<forall>h a v. T h a = Some v \<longrightarrow> (\<forall>x \<in> set (C h a). x < length h)"
    and tree: "tree_slice (T h) s = Some vs"
  shows "\<exists>s' e. slice_CopyTo f h s = Inr (s', h @ e) \<and>
       tree_slice (T (h @ e)) s' = Some (unset_if_empty (map_option (map N) vs)) \<and>
       (\<forall>a' \<in> set (elems s'). set (C (h @ e) a') \<subseteq> {length h ..< length (h @ e)})"
proof (cases "elems s = []")
  case True
  then have run: "slice_CopyTo f h s = Inr (None, h @ [])"
    by (simp add: slice_CopyTo_def Len_def)
  from True tree have "elems vs = []"
    by (cases s) (auto simp: tree_slice_def elems_def those_map_Some_iff)
  then have "unset_if_empty (map_option (map N) vs) = None"
    by (cases vs) (simp_all add: unset_if_empty_def elems_def)
  with run show ?thesis
    by (intro exI [of _ None] exI [of _ "[]"]) (simp add: tree_slice_def elems_def)
next
  case False
  then obtain as where s: "s = Some as" and ne: "as \<noteq> []"
    by (cases s) (auto simp: elems_def)
  with tree obtain ws where ws: "those (map (T h) as) = Some ws" and vs: "vs = Some ws"
    by (auto simp: tree_slice_def)
  from ws ne have wne: "ws \<noteq> []"
    by (auto simp: those_map_Some_iff)
  from copy_elems_deep [OF step cong dom ws]
  obtain as' e where run: "copy_elems f h as = Inr (as', h @ e)"
    and trees: "those (map (T (h @ e)) as') = Some (map N ws)"
    and fresh: "\<forall>a' \<in> set as'. set (C (h @ e) a') \<subseteq> {length h ..< length (h @ e)}"
    by blast
  have "slice_CopyTo f h s = Inr (Some as', h @ e)"
    using run s ne by (simp add: slice_CopyTo_def Len_def elems_def)
  moreover have "tree_slice (T (h @ e)) (Some as') =
      Some (unset_if_empty (map_option (map N) vs))"
    using trees vs wne by (simp add: tree_slice_def unset_if_empty_def elems_def)
  ultimately show ?thesis
    using fresh by (intro exI [of _ "Some as'"] exI [of _ e]) (simp add: elems_def)
qed

lemma slice_ext:
  assumes cong: "\<forall>h h' a v. T h a = Some v \<and> (\<forall>x \<in> set (C h a). load h' x = load h x) \<longrightarrow>
      T h' a = Some v \<and> C h' a = C h a"
    and tree: "tree_slice (T h) s = Some vs"
    and same: "\<forall>a \<in> set (elems s). \<forall>x \<in> set (C h a). load h' x = load h x"
  shows "tree_slice (T h') s = Some vs \<and> (\<forall>a \<in> set (elems s). C h' a = C h a)"
proof -
  have each: "T h' a = T h a \<and> C h' a = C h a" if a: "a \<in> set (elems s)" for a
  proof -
    from tree_slice_defined [OF tree a] obtain w where w: "T h a = Some w" by auto
    with cong same a have "T h' a = Some w \<and> C h' a = C h a" by blast
    with w show ?thesis by simp
  qed
  have "tree_slice (T h') s = Some vs"
    by (rule tree_slice_cong [OF tree]) (simp add: each)
  with each show ?thesis by simp
qed

lemma Span_cong:
  "\<forall>h h' a v. tree_Span h a = Some v \<and> (\<forall>x \<in> set [a]. load h' x = load h x) \<longrightarrow>
      tree_Span h' a = Some v \<and> [a] = [a]"
  by (simp add: tree_Span_def)

lemma Span_dom: "\<forall>h a v. tree_Span h a = Some v \<longrightarrow> (\<forall>x \<in> set [a]. x < length h)"
  by (simp add: tree_Span_dom)

lemma ILS_cong:
  "\<forall>h h' a v. tree_InstrumentationLibrarySpans h a = Some v \<and>
      (\<forall>x \<in> set (cells_InstrumentationLibrarySpans h a). load h' x = load h x) \<longrightarrow>
      tree_InstrumentationLibrarySpans h' a = Some v \<and>
      cells_InstrumentationLibrarySpans h' a = cells_InstrumentationLibrarySpans h a"
  using tree_ILS_cong by blast

lemma ILS_dom:
  "\<forall>h a v. tree_InstrumentationLibrarySpans h a = Some v \<longrightarrow>
     (\<forall>x \<in> set (cells_InstrumentationLibrarySpans h a). x < length h)"
  using tree_ILS_dom by blast

lemma RS_cong:
  "\<forall>h h' a v. tree_ResourceSpans h a = Some v \<and>
      (\<forall>x \<in> set (cells_ResourceSpans h a). load h' x = load h x) \<longrightarrow>
      tree_ResourceSpans h' a = Some v \<and> cells_ResourceSpans h' a = cells_ResourceSpans h a"
  using tree_RS_cong by blast

lemma RS_dom:
  "\<forall>h a v. tree_ResourceSpans h a = Some v \<longrightarrow>
     (\<forall>x \<in> set (cells_ResourceSpans h a). x < length h)"
  using tree_RS_dom by blast

lemma Span_CopyTo_deep:
  "\<forall>h a v. tree_Span h a = Some v \<longrightarrow>
     (\<exists>a' e. Span_CopyTo h a = Inr (a', h @ e) \<and>
        tree_Span (h @ e) a' = Some (unset_empty_Span v) \<and>
        set [a'] \<subseteq> {length h ..< length (h @ e)})"
proof (intro allI impI)
  fix h a v assume "tree_Span h a = Some v"
  then have l: "load h a = Some (SpanObj v)" by (rule tree_Span_SomeD)
  have "Span_CopyTo h a = Inr (length h, h @ [SpanObj (unset_empty_Span v)])"
    by (simp add: Span_CopyTo_def l new_obj_def)
  moreover have "tree_Span (h @ [SpanObj (unset_empty_Span v)]) (length h) =
      Some (unset_empty_Span v)"
    by (simp add: tree_Span_def load_new)
  ultimately show "\<exists>a' e. Span_CopyTo h a = Inr (a', h @ e) \<and>
        tree_Span (h @ e) a' = Some (unset_empty_Span v) \<and>
        set [a'] \<subseteq> {length h ..< length (h @ e)}"
    by (intro exI [of _ "length h"] exI [of _ "[SpanObj (unset_empty_Span v)]"]) simp
qed

lemma ILS_CopyTo_deep:
  "\<forall>h a v. tree_InstrumentationLibrarySpans h a = Some v \<longrightarrow>
     (\<exists>a' e. InstrumentationLibrarySpans_CopyTo h a = Inr (a', h @ e) \<and>
        tree_InstrumentationLibrarySpans (h @ e) a' =
          Some (unset_empty_InstrumentationLibrarySpans v) \<and>
        set (cells_InstrumentationLibrarySpans (h @ e) a') \<subseteq> {length h ..< length (h @ e)})"
proof (intro allI impI)
  fix h a v assume "tree_InstrumentationLibrarySpans h a = Some v"
  from tree_ILS_SomeD [OF this] obtain il ss spans where
    l: "load h a = Some (InstrumentationLibrarySpansObj il ss)"
    and t: "tree_slice (tree_Span h) ss = Some spans"
    and v: "v = \<lparr>InstrumentationLibrary = il, Spans = spans\<rparr>"
    by blast
  from slice_CopyTo_deep [OF Span_CopyTo_deep Span_cong Span_dom t]
  obtain ss' e1 where run1: "slice_CopyTo Span_CopyTo h ss = Inr (ss', h @ e1)"
    and tr1: "tree_slice (tree_Span (h @ e1)) ss' =
        Some (unset_if_empty (map_option (map unset_empty_Span) spans))"
    and fr1: "\<forall>a' \<in> set (elems ss'). set [a'] \<subseteq> {length h ..< length (h @ e1)}"
    by blast
  let ?ob = "InstrumentationLibrarySpansObj il ss'"
  let ?h = "h @ (e1 @ [?ob])"
  let ?a = "length h + length e1"
  have run: "InstrumentationLibrarySpans_CopyTo h a = Inr (?a, ?h)"
    by (simp add: InstrumentationLibrarySpans_CopyTo_def l run1 new_obj_def)
  have la: "load ?h ?a = Some ?ob"
    using load_new [of "h @ e1" ?ob] by simp
  have "\<forall>b \<in> set (elems ss'). \<forall>x \<in> set [b]. load ?h x = load (h @ e1) x"
    using fr1 load_append [of _ "h @ e1" "[?ob]"] by auto
  from slice_ext [OF Span_cong tr1 this]
  have tr: "tree_slice (tree_Span ?h) ss' =
        Some (unset_if_empty (map_option (map unset_empty_Span) spans))"
    by simp
  have tree: "tree_InstrumentationLibrarySpans ?h ?a =
      Some (unset_empty_InstrumentationLibrarySpans v)"
    by (simp add: tree_InstrumentationLibrarySpans_def la tr v
        unset_empty_InstrumentationLibrarySpans_def)
  have cells: "set (cells_InstrumentationLibrarySpans ?h ?a) \<subseteq> {length h ..< length ?h}"
    using fr1 by (auto simp: cells_InstrumentationLibrarySpans_def la)
  from run tree cells
  show "\<exists>a' e. InstrumentationLibrarySpans_CopyTo h a = Inr (a', h @ e) \<and>
        tree_InstrumentationLibrarySpans (h @ e) a' =
          Some (unset_empty_InstrumentationLibrarySpans v) \<and>
        set (cells_InstrumentationLibrarySpans (h @ e) a') \<subseteq> {length h ..< length (h @ e)}"
    by blast
qed

lemma RS_CopyTo_deep:
  "\<forall>h a v. tree_ResourceSpans h a = Some v \<longrightarrow>
     (\<exists>a' e. ResourceSpans_CopyTo h a = Inr (a', h @ e) \<and>
        tree_ResourceSpans (h @ e) a' = Some (unset_empty_ResourceSpans v) \<and>
        set (cells_ResourceSpans (h @ e) a') \<subseteq> {length h ..< length (h @ e)})"
proof (intro allI impI)
  fix h a v assume "tree_ResourceSpans h a = Some v"
  from tree_RS_SomeD [OF this] obtain r es xs where
    l: "load h a = Some (ResourceSpansObj r es)"
    and t: "tree_slice (tree_InstrumentationLibrarySpans h) es = Some xs"
    and v: "v = \<lparr>Resource = r, InstrumentationLibrarySpans = xs\<rparr>"
    by blast
  from slice_CopyTo_deep [OF ILS_CopyTo_deep ILS_cong ILS_dom t]
  obtain es' e1 where
    run1: "slice_CopyTo InstrumentationLibrarySpans_CopyTo h es = Inr (es', h @ e1)"
    and tr1: "tree_slice (tree_InstrumentationLibrarySpans (h @ e1)) es' =
        Some (unset_if_empty (map_option (map unset_empty_InstrumentationLibrarySpans) xs))"
    and fr1: "\<forall>a' \<in> set (elems es').
        set (cells_InstrumentationLibrarySpans (h @ e1) a') \<subseteq> {length h ..< length (h @ e1)}"
    by blast
  let ?ob = "ResourceSpansObj (unset_empty_Resource r) es'"
  let ?h = "h @ (e1 @ [?ob])"
  let ?a = "length h + length e1"
  have run: "ResourceSpans_CopyTo h a = Inr (?a, ?h)"
    by (simp add: ResourceSpans_CopyTo_def l run1 new_obj_def)
  have la: "load ?h ?a = Some ?ob"
    using load_new [of "h @ e1" ?ob] by simp
  have "\<forall>b \<in> set (elems es').
      \<forall>x \<in> set (cells_InstrumentationLibrarySpans (h @ e1) b). load ?h x = load (h @ e1) x"
  proof (intro ballI)
    fix b x assume "b \<in> set (elems es')"
      and "x \<in> set (cells_InstrumentationLibrarySpans (h @ e1) b)"
    with fr1 have "x < length (h @ e1)" by fastforce
    from load_append [OF this, of "[?ob]"] show "load ?h x = load (h @ e1) x" by simp
  qed
  from slice_ext [OF ILS_cong tr1 this]
  have tr: "tree_slice (tree_InstrumentationLibrarySpans ?h) es' =
        Some (unset_if_empty (map_option (map unset_empty_InstrumentationLibrarySpans) xs))"
    and ce: "\<forall>b \<in> set (elems es'). cells_InstrumentationLibrarySpans ?h b =
        cells_InstrumentationLibrarySpans (h @ e1) b"
    by simp_all
  have tree: "tree_ResourceSpans ?h ?a = Some (unset_empty_ResourceSpans v)"
    by (simp add: tree_ResourceSpans_def la tr v unset_empty_ResourceSpans_def)
  have cells: "set (cells_ResourceSpans ?h ?a) \<subseteq> {length h ..< length ?h}"
  proof
    fix x assume "x \<in> set (cells_ResourceSpans ?h ?a)"
    then consider "x = ?a"
      | b where "b \<in> set (elems es')" "x \<in> set (cells_InstrumentationLibrarySpans ?h b)"
      by (auto simp: cells_ResourceSpans_def la)
    then show "x \<in> {length h ..< length ?h}"
    proof cases
      case 1
      then show ?thesis by simp
    next
      case 2
      with ce fr1 have "x \<in> {length h ..< length (h @ e1)}" by fastforce
      then show ?thesis by simp
    qed
  qed
  from run tree cells
  show "\<exists>a' e. ResourceSpans_CopyTo h a = Inr (a', h @ e) \<and>
        tree_ResourceSpans (h @ e) a' = Some (unset_empty_ResourceSpans v) \<and>
        set (cells_ResourceSpans (h @ e) a') \<subseteq> {length h ..< length (h @ e)}"
    by blast
qed

lemma tree_Request_frame:
  assumes "tree_Request h t = Some v" and "\<forall>x < length h. load h' x = load h x"
  shows "tree_Request h' t = Some v \<and> cells_Request h' t = cells_Request h t"
proof (rule tree_Request_cong [OF assms(1)])
  fix x assume "x \<in> set (cells_Request h t)"
  from tree_Request_dom [OF assms(1) this] assms(2) show "load h' x = load h x"
    by simp
qed

lemma tree_Request_intro:
  "load h a = Some (RequestObj rs) \<Longrightarrow> tree_slice (tree_ResourceSpans h) rs = Some xs \<Longrightarrow>
   tree_Request h a = Some \<lparr>ResourceSpans = xs\<rparr>"
  by (simp add: tree_Request_def)

lemma cells_Request_eq:
  "load h a = Some (RequestObj rs) \<Longrightarrow>
   cells_Request h a = a # concat (map (cells_ResourceSpans h) (elems rs))"
  by (simp add: cells_Request_def)

text \<open>
  C7. Let \<open>t\<close> be a request cell that stands for a tree \<open>v\<close>. Then \<open>Clone\<close> succeeds
  and returns a new request cell \<open>c\<close> such that: \<open>c\<close> stands for a copy of \<open>v\<close>
  (element for element, a sequence of length 0 being unset in the copy); \<open>t\<close> still
  stands for \<open>v\<close>; every cell reachable from \<open>c\<close> was allocated by the call, so none
  is reachable from \<open>t\<close>; writing any cell whatever at an address reachable from
  \<open>c\<close> leaves the tree of \<open>t\<close> as it is; and so does every later store that keeps
  the cells that existed before the call, whatever it holds at the clone's addresses
  and beyond.
\<close>

theorem Clone_deep_copy:
  assumes "tree_Request h t = Some v"
  shows "\<exists>c h'. Clone h (Some t) = Inr (Some c, h') \<and>
     tree_Request h' c = Some (unset_empty v) \<and>
     tree_Request h' t = Some v \<and>
     set (cells_Request h' c) \<subseteq> {length h ..< length h'} \<and>
     set (cells_Request h' t) \<subseteq> {..< length h} \<and>
     (\<forall>a \<in> set (cells_Request h' c). \<forall>ob. tree_Request (store h' a ob) t = Some v) \<and>
     (\<forall>h''. take (length h) h'' = h \<longrightarrow> tree_Request h'' t = Some v)"
proof -
  from tree_Request_SomeD [OF assms] obtain rs xs where
    l: "load h t = Some (RequestObj rs)"
    and t: "tree_slice (tree_ResourceSpans h) rs = Some xs"
    and v: "v = \<lparr>ResourceSpans = xs\<rparr>"
    by blast
  let ?c = "length h"
  let ?h0 = "h @ [RequestObj None]"
  have lt: "t < length h"
    using l by (rule load_lt)
  have l0: "load ?h0 t = Some (RequestObj rs)"
    using l lt by (simp add: load_append)
  have "\<forall>a \<in> set (elems rs). \<forall>x \<in> set (cells_ResourceSpans h a). load ?h0 x = load h x"
  proof (intro ballI)
    fix a x assume a: "a \<in> set (elems rs)" and x: "x \<in> set (cells_ResourceSpans h a)"
    from tree_slice_defined [OF t a] obtain w where "tree_ResourceSpans h a = Some w"
      by auto
    from tree_RS_dom [OF this x] show "load ?h0 x = load h x"
      by (simp add: load_append)
  qed
  from slice_ext [OF RS_cong t this]
  have t0: "tree_slice (tree_ResourceSpans ?h0) rs = Some xs"
    by simp
  from slice_CopyTo_deep [OF RS_CopyTo_deep RS_cong RS_dom t0]
  obtain rs' e where run1: "slice_CopyTo ResourceSpans_CopyTo ?h0 rs = Inr (rs', ?h0 @ e)"
    and tr1: "tree_slice (tree_ResourceSpans (?h0 @ e)) rs' =
        Some (unset_if_empty (map_option (map unset_empty_ResourceSpans) xs))"
    and fr1: "\<forall>a' \<in> set (elems rs').
        set (cells_ResourceSpans (?h0 @ e) a') \<subseteq> {length ?h0 ..< length (?h0 @ e)}"
    by blast
  let ?h1 = "?h0 @ e"
  let ?h' = "store ?h1 ?c (RequestObj rs')"
  have run: "Clone h (Some t) = Inr (Some ?c, ?h')"
    by (simp add: Clone_def new_obj_def l0 run1)
  have len: "length ?h' = length ?h1"
    by (simp add: store_def)
  have lc: "load ?h' ?c = Some (RequestObj rs')"
    by (rule load_store_same) simp
  have other: "load ?h' x = load ?h1 x" if "x \<noteq> ?c" for x
    using that by (rule load_store_other)
  have old: "\<forall>x < length h. load ?h' x = load h x"
  proof (intro allI impI)
    fix x assume x: "x < length h"
    then have "load ?h' x = load ?h1 x" by (intro other) simp
    also have "\<dots> = load h x"
      using load_append [OF x, of "[RequestObj None] @ e"] by simp
    finally show "load ?h' x = load h x" .
  qed
  have "\<forall>a \<in> set (elems rs'). \<forall>x \<in> set (cells_ResourceSpans ?h1 a). load ?h' x = load ?h1 x"
  proof (intro ballI)
    fix a x assume "a \<in> set (elems rs')" and "x \<in> set (cells_ResourceSpans ?h1 a)"
    with fr1 have "x \<in> {length ?h0 ..< length ?h1}" by blast
    then have "x \<noteq> ?c" by simp
    then show "load ?h' x = load ?h1 x" by (rule other)
  qed
  from slice_ext [OF RS_cong tr1 this]
  have tr: "tree_slice (tree_ResourceSpans ?h') rs' =
        Some (unset_if_empty (map_option (map unset_empty_ResourceSpans) xs))"
    and ce: "\<forall>a \<in> set (elems rs'). cells_ResourceSpans ?h' a = cells_ResourceSpans ?h1 a"
    by simp_all
  have clone: "tree_Request ?h' ?c = Some (unset_empty v)"
    using tree_Request_intro [OF lc tr] by (simp add: v unset_empty_def)
  from tree_Request_frame [OF assms old]
  have orig: "tree_Request ?h' t = Some v" and ct: "cells_Request ?h' t = cells_Request h t"
    by simp_all
  have cells_t: "set (cells_Request ?h' t) \<subseteq> {..< length h}"
    unfolding ct using tree_Request_dom [OF assms] by auto
  have cells_c: "set (cells_Request ?h' ?c) \<subseteq> {length h ..< length ?h'}"
  proof
    fix x assume "x \<in> set (cells_Request ?h' ?c)"
    then consider "x = ?c"
      | a where "a \<in> set (elems rs')" "x \<in> set (cells_ResourceSpans ?h' a)"
      unfolding cells_Request_eq [OF lc] by auto
    then show "x \<in> {length h ..< length ?h'}"
    proof cases
      case 1
      then show ?thesis by (simp add: store_def)
    next
      case 2
      with ce fr1 have "x \<in> {length ?h0 ..< length ?h1}" by fastforce
      then show ?thesis by (simp add: store_def)
    qed
  qed
  have later: "tree_Request h'' t = Some v" if tk: "take (length h) h'' = h" for h''
  proof -
    from tk have "length (take (length h) h'') = length h"
      by simp
    then have le: "length h \<le> length h''"
      by simp
    have "load h'' x = load h x" if x: "x < length h" for x
    proof -
      have "take (length h) h'' ! x = h'' ! x"
        using x by simp
      with tk have "h'' ! x = h ! x"
        by simp
      with le x show ?thesis by (simp add: load_def)
    qed
    with tree_Request_frame [OF assms, of h''] show ?thesis by simp
  qed
  have mutate: "tree_Request (store ?h' a ob) t = Some v"
    if "a \<in> set (cells_Request ?h' ?c)" for a ob
  proof (rule later)
    from that cells_c have "length h \<le> a" by auto
    then show "take (length h) (store ?h' a ob) = h"
      by (simp add: store_def)
  qed
  from run clone orig cells_c cells_t mutate later show ?thesis
    by blast
qed

theorem Clone_deep_copy_witness:
  "tree_Request heap1 3 = Some (req_of [zero_Span]) \<and>
   Clone heap1 (Some 3) = Inr (Some 4, heap1_cloned) \<and>
   cells_Request heap1_cloned 4 = [4, 7, 6, 5] \<and>
   tree_Request heap1_cloned 4 = Some (req_of [zero_Span]) \<and>
   tree_Request (store heap1_cloned 5 (SpanObj (span_with 2 2))) 4
     = Some (req_of [span_with 2 2]) \<and>
   tree_Request (store heap1_cloned 5 (SpanObj (span_with 2 2))) 3 = Some (req_of [zero_Span])"
proof -
  have t: "tree_Request heap1 3 = Some (req_of [zero_Span])"
    by (simp add: heap1_def tree_Request_def tree_ResourceSpans_def
        tree_InstrumentationLibrarySpans_def tree_Span_def tree_slice_def load_def req_of_def)
  have c: "Clone heap1 (Some 3) = Inr (Some 4, heap1_cloned)"
    by (simp add: heap1_cloned_def heap1_def Clone_def new_obj_def load_def slice_CopyTo_def
        Len_def elems_def ResourceSpans_CopyTo_def InstrumentationLibrarySpans_CopyTo_def
        Span_CopyTo_def store_def unset_empty_Span_def unset_empty_Resource_def
        unset_if_empty_def zero_Span_def zero_Status_def)
  have cells: "cells_Request heap1_cloned 4 = [4, 7, 6, 5]"
    by (simp add: heap1_cloned_def heap1_def cells_Request_def cells_ResourceSpans_def
        cells_InstrumentationLibrarySpans_def load_def elems_def)
  have tc: "tree_Request heap1_cloned 4 = Some (req_of [zero_Span])"
    by (simp add: heap1_cloned_def heap1_def tree_Request_def tree_ResourceSpans_def
        tree_InstrumentationLibrarySpans_def tree_Span_def tree_slice_def load_def req_of_def)
  have tm: "tree_Request (store heap1_cloned 5 (SpanObj (span_with 2 2))) 4
      = Some (req_of [span_with 2 2])"
    by (simp add: heap1_cloned_def heap1_def store_def tree_Request_def tree_ResourceSpans_def
        tree_InstrumentationLibrarySpans_def tree_Span_def tree_slice_def load_def req_of_def)
  from Clone_deep_copy [OF t] c
  have "\<forall>a \<in> set (cells_Request heap1_cloned 4).
          \<forall>ob. tree_Request (store heap1_cloned a ob) 3 = Some (req_of [zero_Span])"
    by simp
  then have "tree_Request (store heap1_cloned 5 (SpanObj (span_with 2 2))) 3
      = Some (req_of [zero_Span])"
    by (simp add: cells)
  with t c cells tc tm show ?thesis
    by simp
qed

section \<open>The round trip through the wire\<close>

text \<open>
  The decoder inverts the encoder, layer by layer: a varint, a field, a run of fields.
\<close>

lemma byte_small: "v < 128 \<Longrightarrow> (of_nat v :: byte) < 128 \<and> unat (of_nat v :: byte) = v"
  by (simp add: word_less_nat_alt unat_of_nat)

lemma byte_cont:
  "\<not> (of_nat (v mod 128) + 128 :: byte) < 128 \<and>
   unat (of_nat (v mod 128) + 128 :: byte) mod 128 = v mod 128"
proof -
  have e: "(of_nat (v mod 128) + 128 :: byte) = of_nat (v mod 128 + 128)"
    by simp
  have "unat (of_nat (v mod 128 + 128) :: byte) = (v mod 128 + 128) mod 2 ^ LENGTH(8)"
    by (rule unat_of_nat)
  also have "\<dots> = v mod 128 + 128"
    by simp
  finally have u: "unat (of_nat (v mod 128) + 128 :: byte) = v mod 128 + 128"
    unfolding e .
  have "\<not> (of_nat (v mod 128) + 128 :: byte) < 128"
    unfolding word_less_nat_alt u by simp
  with u show ?thesis by simp
qed

lemma get_put_uvarint_from:
  "v < 128 ^ Suc k \<Longrightarrow> shift + 7 * k < 64 \<Longrightarrow>
   get_uvarint_from shift (put_uvarint v @ rest) = Some (v * 2 ^ shift, rest)"
proof (induction k arbitrary: v shift)
  case 0
  then show ?case
    by (subst put_uvarint.simps) (simp add: byte_small)
next
  case (Suc k)
  show ?case
  proof (cases "v < 128")
    case True
    with Suc.prems show ?thesis
      by (subst put_uvarint.simps) (simp add: byte_small)
  next
    case False
    from Suc.prems have "v div 128 < 128 ^ Suc k"
      by (simp add: less_mult_imp_div_less mult.commute)
    moreover from Suc.prems have "(shift + 7) + 7 * k < 64"
      by simp
    ultimately
    have "get_uvarint_from (shift + 7) (put_uvarint (v div 128) @ rest) =
        Some (v div 128 * 2 ^ (shift + 7), rest)"
      by (rule Suc.IH)
    moreover have "v mod 128 * 2 ^ shift + v div 128 * 2 ^ (shift + 7) = v * 2 ^ shift"
    proof -
      have "v mod 128 * 2 ^ shift + v div 128 * 2 ^ (shift + 7) =
          v mod 128 * 2 ^ shift + (v div 128 * 128) * 2 ^ shift"
        by (simp add: power_add)
      also have "\<dots> = (v mod 128 + v div 128 * 128) * 2 ^ shift"
        by (simp only: add_mult_distrib)
      also have "v mod 128 + v div 128 * 128 = v"
        by simp
      finally show ?thesis .
    qed
    moreover from Suc.prems have "\<not> 64 \<le> shift"
      by simp
    ultimately show ?thesis
      using False by (subst put_uvarint.simps) (simp add: byte_cont)
  qed
qed

lemma get_put_uvarint: "get_uvarint (put_uvarint (unat (w :: uint64)) @ rest) = Some (w, rest)"
proof -
  have "unat w < 2 ^ 64" using unsigned_less [of w, where 'a = nat] by simp
  also have "(2 :: nat) ^ 64 \<le> 128 ^ Suc 9" by simp
  finally have "unat w < 128 ^ Suc 9" .
  from get_put_uvarint_from [OF this, of 0 rest] show ?thesis
    by (simp add: get_uvarint_def)
qed

lemma put_uvarint_nonempty: "put_uvarint v \<noteq> []"
  by (subst put_uvarint.simps) simp

lemma length_le_bytes [simp]: "length (le_bytes k v) = k"
  by (simp add: le_bytes_def)

lemma le_bytes_0 [simp]: "le_bytes 0 v = []"
  by (simp add: le_bytes_def)

lemma le_bytes_Suc [simp]: "le_bytes (Suc k) v = of_nat (v mod 256) # le_bytes k (v div 256)"
proof -
  have "[0..<Suc k] = 0 # map Suc [0..<k]"
    by (simp add: upt_conv_Cons map_Suc_upt del: upt_Suc)
  then show ?thesis
    by (simp add: le_bytes_def comp_def div_mult2_eq del: upt_Suc)
qed

lemma le_value_le_bytes: "le_value (le_bytes k v) = v mod 256 ^ k"
proof (induction k arbitrary: v)
  case 0
  then show ?case by simp
next
  case (Suc k)
  have "unat (of_nat (v mod 256) :: byte) = v mod 256 mod 2 ^ LENGTH(8)"
    by (rule unat_of_nat)
  then have u: "unat (of_nat (v mod 256) :: byte) = v mod 256"
    by simp
  have "v mod 256 + 256 * (v div 256 mod 256 ^ k) = v mod (256 * 256 ^ k)"
    by (simp add: mod_mult2_eq)
  with Suc.IH [of "v div 256"] u show ?case
    by simp
qed

lemma le_value_fixed64: "le_value (le_bytes 8 (unat (v :: uint64))) = unat v"
proof -
  have "unat v < 256 ^ 8"
    using unsigned_less [of v, where 'a = nat] by simp
  then show ?thesis
    by (simp only: le_value_le_bytes mod_less)
qed

lemma le_value_fixed32: "le_value (le_bytes 4 (unat (v :: 32 word))) = unat v"
proof -
  have "unat v < 256 ^ 4"
    using unsigned_less [of v, where 'a = nat] by simp
  then show ?thesis
    by (simp only: le_value_le_bytes mod_less)
qed

lemma unat_uint64_of_nat: "v < 2 ^ 64 \<Longrightarrow> unat (of_nat v :: uint64) = v"
  by (simp add: unat_of_nat)

lemma unat_uint64_less: "unat (w :: uint64) < 2 ^ 64"
  using unsigned_less [of w, where 'a = nat] by simp

lemma unat_uint32_less: "unat (w :: 32 word) < 2 ^ 32"
  using unsigned_less [of w, where 'a = nat] by simp

lemma get_put_uvarint_nat:
  assumes "v < 2 ^ 64"
  shows "\<exists>w :: uint64. unat w = v \<and> (\<forall>more. get_uvarint (put_uvarint v @ more) = Some (w, more))"
proof -
  define w :: uint64 where "w = of_nat v"
  have u: "unat w = v"
    unfolding w_def using assms by (rule unat_uint64_of_nat)
  have "get_uvarint (put_uvarint v @ more) = Some (w, more)" for more
    using get_put_uvarint [of w more] by (simp add: u)
  with u show ?thesis by blast
qed

lemma get_put_field:
  assumes num: "0 < fst f" "fst f < 2 ^ 29"
    and len: "case snd f of Bytes bs \<Rightarrow> length bs < 2 ^ 63 | _ \<Rightarrow> True"
  shows "get_field (put_field f @ rest) = Some (f, rest)"
proof -
  obtain num w where f: "f = (num, w)" by (cases f)
  have wt: "wireType w < 8" by (cases w) (simp_all add: wireType_def)
  have "num * 8 + wireType w < 2 ^ 64" using num wt f by simp
  from get_put_uvarint_nat [OF this] obtain key :: uint64
    where ukey: "unat key = num * 8 + wireType w"
      and key: "\<And>more. get_uvarint (put_uvarint (num * 8 + wireType w) @ more) = Some (key, more)"
    by blast
  have d: "unat key div 8 mod 2 ^ 32 = num"
    using num wt f by (simp add: ukey)
  have m: "unat key mod 8 = wireType w"
    using wt by (simp add: ukey)
  have ok: "\<not> (num = 0 \<or> (2::nat) ^ 31 \<le> num)"
    using num f by simp
  have hd: "get_field (put_uvarint (num * 8 + wireType w) @ more) =
    (if wireType w = 0 then
       (case get_uvarint more of
          None \<Rightarrow> None
        | Some (v, r') \<Rightarrow> Some ((num, Varint v), r'))
     else if wireType w = 1 then
       (if length more < 8 then None
        else Some ((num, Fixed64 (of_nat (le_value (take 8 more)))), drop 8 more))
     else if wireType w = 2 then
       (case get_uvarint more of
          None \<Rightarrow> None
        | Some (n, r') \<Rightarrow>
            if 2 ^ 63 \<le> unat n \<or> length r' < unat n then None
            else Some ((num, Bytes (take (unat n) r')), drop (unat n) r'))
     else if wireType w = 5 then
       (if length more < 4 then None
        else Some ((num, Fixed32 (of_nat (le_value (take 4 more)))), drop 4 more))
     else None)" for more
    unfolding get_field_def key using ok by (simp only: d m Let_def option.case prod.case if_False)
  show ?thesis
  proof (cases w)
    case (Varint v)
    have "put_field f @ rest = put_uvarint (num * 8 + wireType w) @ (put_uvarint (unat v) @ rest)"
      by (simp add: f put_field_def Varint)
    then show ?thesis
      by (simp only: hd) (simp add: Varint wireType_def get_put_uvarint f)
  next
    case (Fixed64 v)
    have "put_field f @ rest = put_uvarint (num * 8 + wireType w) @ (le_bytes 8 (unat v) @ rest)"
      by (simp add: f put_field_def Fixed64)
    then show ?thesis
      by (simp only: hd) (simp add: Fixed64 wireType_def f le_value_fixed64)
  next
    case (Bytes bs)
    with len f have l: "length bs < 2 ^ 63" by simp
    then have "length bs < 2 ^ 64" by simp
    from get_put_uvarint_nat [OF this] obtain n :: uint64
      where un: "unat n = length bs"
        and n: "\<And>more. get_uvarint (put_uvarint (length bs) @ more) = Some (n, more)"
      by blast
    have "put_field f @ rest =
        put_uvarint (num * 8 + wireType w) @ (put_uvarint (length bs) @ (bs @ rest))"
      by (simp add: f put_field_def Bytes)
    then show ?thesis
      using l by (simp only: hd) (simp add: Bytes wireType_def f n un)
  next
    case (Fixed32 v)
    have "put_field f @ rest = put_uvarint (num * 8 + wireType w) @ (le_bytes 4 (unat v) @ rest)"
      by (simp add: f put_field_def Fixed32)
    then show ?thesis
      by (simp only: hd) (simp add: Fixed32 wireType_def f le_value_fixed32)
  qed
qed

lemma put_field_nonempty: "put_field f \<noteq> []"
  by (simp add: put_field_def put_uvarint_nonempty)

lemma get_put_fields:
  assumes "\<forall>f \<in> set fs. 0 < fst f \<and> fst f < 2 ^ 29 \<and>
             (case snd f of Bytes bs \<Rightarrow> length bs < 2 ^ 63 | _ \<Rightarrow> True)"
  shows "get_fields (put_fields fs) = Some fs"
  using assms
proof (induction fs)
  case Nil
  then show ?case
    by (subst get_fields.simps) (simp add: put_fields_def)
next
  case (Cons f fs)
  then have g: "get_field (put_field f @ put_fields fs) = Some (f, put_fields fs)"
    by (intro get_put_field) simp_all
  from Cons have "get_fields (put_fields fs) = Some fs" by simp
  with g show ?case
    by (subst get_fields.simps) (simp add: put_fields_def put_field_nonempty)
qed

text \<open>
  Message by message, from the leaves up: decoding the encoding of a message yields the
  message with its empty sequences unset, provided the bytes read so far fit a Go int.
\<close>

lemma string_of_bytes_of_string [simp]: "string_of_bytes (bytes_of_string s) = s"
proof -
  have "char_of (unat (of_nat (of_char c) :: byte)) = c" for c :: char
  proof -
    have "unat (of_nat (of_char c) :: byte) = of_char c mod 2 ^ LENGTH(8)"
      by (rule unat_of_nat)
    also have "\<dots> = of_char c"
      using nat_of_char_less_256 [of c] by simp
    finally show ?thesis by simp
  qed
  then show ?thesis
    by (simp add: string_of_bytes_def bytes_of_string_def comp_def)
qed

lemma bytes_of_string_empty [simp]: "bytes_of_string s = [] \<longleftrightarrow> s = []"
  by (simp add: bytes_of_string_def)

lemma enum_roundtrip [simp]: "(ucast (scast (c :: int32) :: uint64) :: int32) = c"
  by (rule bit_word_eqI) (auto simp: bit_simps)

lemma fold_fields_append:
  "fold_fields step m (fs @ gs) =
     (case fold_fields step m fs of None \<Rightarrow> None | Some m' \<Rightarrow> fold_fields step m' gs)"
  by (induction fs arbitrary: m) (auto split: option.splits)

lemma length_put_fields_Cons: "length (put_fields (f # fs)) = length (put_field f) + length (put_fields fs)"
  by (simp add: put_fields_def)

lemma put_fields_append: "put_fields (fs @ gs) = put_fields fs @ put_fields gs"
  by (simp add: put_fields_def)

lemma payload_le_field: "length bs \<le> length (put_field (num, Bytes bs))"
  by (simp add: put_field_def)

lemma payload_le_fields:
  "(num, Bytes bs) \<in> set fs \<Longrightarrow> length bs \<le> length (put_fields fs)"
proof (induction fs)
  case Nil
  then show ?case by simp
next
  case (Cons f fs)
  then consider "f = (num, Bytes bs)" | "(num, Bytes bs) \<in> set fs" by auto
  then show ?case
  proof cases
    case 1
    with payload_le_field [of bs num] show ?thesis
      by (simp add: length_put_fields_Cons)
  next
    case 2
    with Cons.IH show ?thesis by (simp add: length_put_fields_Cons)
  qed
qed

lemma get_put_fields_fit:
  assumes fit: "length (put_fields fs) < 2 ^ 63"
    and nums: "\<forall>f \<in> set fs. 0 < fst f \<and> fst f < 2 ^ 29"
  shows "get_fields (put_fields fs) = Some fs"
proof (rule get_put_fields, intro ballI conjI)
  fix f assume f: "f \<in> set fs"
  with nums show "0 < fst f" "fst f < 2 ^ 29" by auto
  show "case snd f of Bytes bs \<Rightarrow> length bs < 2 ^ 63 | _ \<Rightarrow> True"
  proof (cases "snd f")
    case (Bytes bs)
    with f have "(fst f, Bytes bs) \<in> set fs" by (metis prod.collapse)
    from payload_le_fields [OF this] fit Bytes show ?thesis by simp
  qed simp_all
qed

lemma Unmarshal_with_fit:
  assumes "length (put_fields fs) < 2 ^ 63"
    and "\<forall>f \<in> set fs. 0 < fst f \<and> fst f < 2 ^ 29"
  shows "Unmarshal_with step m (put_fields fs) = fold_fields step m fs"
  by (simp add: Unmarshal_with_def get_put_fields_fit [OF assms])

lemma fold_repeated:
  assumes "\<And>m x. x \<in> set xs \<Longrightarrow> step m k (Bytes (M x)) = Some (app m (N x))"
  shows "fold_fields step m (map (\<lambda>x. (k, Bytes (M x))) xs) = Some (foldl app m (map N xs))"
  using assms by (induction xs arbitrary: m) simp_all

lemma fields_append_fit:
  "length (put_fields (fs @ gs)) < n \<Longrightarrow> length (put_fields fs) < n \<and> length (put_fields gs) < n"
  by (simp add: put_fields_append)

lemma nums_AnyValue: "\<forall>f \<in> set (fields_AnyValue v). 0 < fst f \<and> fst f < 2 ^ 29"
  by (cases v) (simp_all add: fields_AnyValue_def)

lemma roundtrip_AnyValue:
  assumes "length (Marshal_AnyValue v) < 2 ^ 63"
  shows "Unmarshal_AnyValue NoValue (Marshal_AnyValue v) = Some v"
proof -
  have "Unmarshal_AnyValue NoValue (Marshal_AnyValue v) =
      fold_fields set_AnyValue NoValue (fields_AnyValue v)"
    unfolding Unmarshal_AnyValue_def Marshal_AnyValue_def
    using assms nums_AnyValue
    by (intro Unmarshal_with_fit) (simp_all add: Marshal_AnyValue_def)
  also have "\<dots> = Some v"
    by (cases v) (simp_all add: fields_AnyValue_def set_AnyValue_def)
  finally show ?thesis .
qed

lemma nums_KeyValue: "\<forall>f \<in> set (fields_KeyValue kv). 0 < fst f \<and> fst f < 2 ^ 29"
  by (simp add: fields_KeyValue_def string_field_def)

lemma roundtrip_KeyValue:
  assumes "length (Marshal_KeyValue kv) < 2 ^ 63"
  shows "Unmarshal_KeyValue zero_KeyValue (Marshal_KeyValue kv) = Some kv"
proof -
  have "(2, Bytes (Marshal_AnyValue (Val kv))) \<in> set (fields_KeyValue kv)"
    by (simp add: fields_KeyValue_def)
  from payload_le_fields [OF this] assms
  have "length (Marshal_AnyValue (Val kv)) < 2 ^ 63"
    by (simp add: Marshal_KeyValue_def)
  then have v: "Unmarshal_AnyValue NoValue (Marshal_AnyValue (Val kv)) = Some (Val kv)"
    by (rule roundtrip_AnyValue)
  have "Unmarshal_KeyValue zero_KeyValue (Marshal_KeyValue kv) =
      fold_fields set_KeyValue zero_KeyValue (fields_KeyValue kv)"
    unfolding Unmarshal_KeyValue_def Marshal_KeyValue_def
    using assms nums_KeyValue
    by (intro Unmarshal_with_fit) (simp_all add: Marshal_KeyValue_def)
  also have "\<dots> = Some kv"
    by (simp add: fields_KeyValue_def string_field_def set_KeyValue_def zero_KeyValue_def v)
  finally show ?thesis .
qed

lemma nums_Status: "\<forall>f \<in> set (fields_Status st). 0 < fst f \<and> fst f < 2 ^ 29"
  by (simp add: fields_Status_def string_field_def enum_field_def)

lemma roundtrip_Status:
  assumes "length (Marshal_Status st) < 2 ^ 63"
  shows "Unmarshal_Status zero_Status (Marshal_Status st) = Some st"
proof -
  have "Unmarshal_Status zero_Status (Marshal_Status st) =
      fold_fields set_Status zero_Status (fields_Status st)"
    unfolding Unmarshal_Status_def Marshal_Status_def
    using assms nums_Status
    by (intro Unmarshal_with_fit) (simp_all add: Marshal_Status_def)
  also have "\<dots> = Some st"
    by (simp add: fields_Status_def string_field_def enum_field_def set_Status_def
        zero_Status_def)
  finally show ?thesis .
qed

lemma nums_InstrumentationLibrary:
  "\<forall>f \<in> set (fields_InstrumentationLibrary il). 0 < fst f \<and> fst f < 2 ^ 29"
  by (simp add: fields_InstrumentationLibrary_def string_field_def)

lemma roundtrip_InstrumentationLibrary:
  assumes "length (Marshal_InstrumentationLibrary il) < 2 ^ 63"
  shows "Unmarshal_InstrumentationLibrary zero_InstrumentationLibrary
           (Marshal_InstrumentationLibrary il) = Some il"
proof -
  have "Unmarshal_InstrumentationLibrary zero_InstrumentationLibrary
          (Marshal_InstrumentationLibrary il) =
      fold_fields set_InstrumentationLibrary zero_InstrumentationLibrary
        (fields_InstrumentationLibrary il)"
    unfolding Unmarshal_InstrumentationLibrary_def Marshal_InstrumentationLibrary_def
    using assms nums_InstrumentationLibrary
    by (intro Unmarshal_with_fit) (simp_all add: Marshal_InstrumentationLibrary_def)
  also have "\<dots> = Some il"
    by (simp add: fields_InstrumentationLibrary_def string_field_def
        set_InstrumentationLibrary_def zero_InstrumentationLibrary_def)
  finally show ?thesis .
qed

lemma nums_Resource: "\<forall>f \<in> set (fields_Resource r). 0 < fst f \<and> fst f < 2 ^ 29"
  by (auto simp: fields_Resource_def)

lemma foldl_append_Resource:
  "foldl (\<lambda>m kv. m\<lparr>ResourceAttributes := Some (elems (ResourceAttributes m) @ [kv])\<rparr>) m kvs =
     (if kvs = [] then m else m\<lparr>ResourceAttributes := Some (elems (ResourceAttributes m) @ kvs)\<rparr>)"
  by (induction kvs arbitrary: m) (simp_all add: elems_def)

lemma unset_if_empty_Some_elems [simp]: "unset_if_empty (Some (elems s)) = unset_if_empty s"
  by (cases s) (simp_all add: unset_if_empty_def elems_def)

lemma foldl_append_Resource_zero:
  "foldl (\<lambda>m kv. m\<lparr>ResourceAttributes := Some (elems (ResourceAttributes m) @ [kv])\<rparr>)
     zero_Resource kvs = \<lparr>ResourceAttributes = unset_if_empty (Some kvs)\<rparr>"
  unfolding foldl_append_Resource
  by (simp add: zero_Resource_def unset_if_empty_def elems_def)

lemma roundtrip_Resource:
  assumes "length (Marshal_Resource r) < 2 ^ 63"
  shows "Unmarshal_Resource zero_Resource (Marshal_Resource r) = Some (unset_empty_Resource r)"
proof -
  let ?app = "\<lambda>m kv. m\<lparr>ResourceAttributes := Some (elems (ResourceAttributes m) @ [kv])\<rparr>"
  have each: "set_Resource m 1 (Bytes (Marshal_KeyValue kv)) = Some (?app m kv)"
    if "kv \<in> set (elems (ResourceAttributes r))" for m kv
  proof -
    from that have "(1, Bytes (Marshal_KeyValue kv)) \<in> set (fields_Resource r)"
      by (auto simp: fields_Resource_def)
    from payload_le_fields [OF this] assms have "length (Marshal_KeyValue kv) < 2 ^ 63"
      by (simp add: Marshal_Resource_def)
    from roundtrip_KeyValue [OF this] show ?thesis
      by (simp add: set_Resource_def)
  qed
  have "Unmarshal_Resource zero_Resource (Marshal_Resource r) =
      fold_fields set_Resource zero_Resource (fields_Resource r)"
    unfolding Unmarshal_Resource_def Marshal_Resource_def
    using assms nums_Resource
    by (intro Unmarshal_with_fit) (simp_all add: Marshal_Resource_def)
  also have "\<dots> = Some (foldl ?app zero_Resource (map (\<lambda>kv. kv) (elems (ResourceAttributes r))))"
    unfolding fields_Resource_def by (rule fold_repeated) (rule each)
  also have "\<dots> = Some (unset_empty_Resource r)"
    unfolding list.map_ident foldl_append_Resource_zero
    by (cases r) (simp add: unset_empty_Resource_def)
  finally show ?thesis .
qed

lemma nums_Span: "\<forall>f \<in> set (fields_Span s). 0 < fst f \<and> fst f < 2 ^ 29"
  by (auto simp: fields_Span_def string_field_def enum_field_def fixed64_field_def id_field_def)

lemma get_id_field:
  "0 < n \<Longrightarrow> length bs = n \<Longrightarrow> get_id n (if bs = replicate n 0 then [] else bs) = Some bs"
  by (auto simp: get_id_def)

lemma foldl_append_Span:
  "foldl (\<lambda>m kv. m\<lparr>Attributes := Some (elems (Attributes m) @ [kv])\<rparr>) m kvs =
     (if kvs = [] then m else m\<lparr>Attributes := Some (elems (Attributes m) @ kvs)\<rparr>)"
  by (induction kvs arbitrary: m) (simp_all add: elems_def)

lemma foldl_append_Span_unset:
  "Attributes m = None \<Longrightarrow>
   foldl (\<lambda>m kv. m\<lparr>Attributes := Some (elems (Attributes m) @ [kv])\<rparr>) m kvs =
     m\<lparr>Attributes := unset_if_empty (Some kvs)\<rparr>"
  unfolding foldl_append_Span
  by (cases m) (simp add: unset_if_empty_def elems_def)

lemma roundtrip_Span:
  assumes fit: "length (Marshal_Span s) < 2 ^ 63" and wf: "wf_Span s"
  shows "Unmarshal_Span zero_Span (Marshal_Span s) = Some (unset_empty_Span s)"
proof -
  let ?app = "\<lambda>m kv. m\<lparr>Attributes := Some (elems (Attributes m) @ [kv])\<rparr>"
  have each: "set_Span m 9 (Bytes (Marshal_KeyValue kv)) = Some (?app m kv)"
    if "kv \<in> set (elems (Attributes s))" for m kv
  proof -
    from that have "(9, Bytes (Marshal_KeyValue kv)) \<in> set (fields_Span s)"
      by (auto simp: fields_Span_def)
    from payload_le_fields [OF this] fit have "length (Marshal_KeyValue kv) < 2 ^ 63"
      by (simp add: Marshal_Span_def)
    from roundtrip_KeyValue [OF this] show ?thesis
      by (simp add: set_Span_def)
  qed
  have attrs: "fold_fields set_Span m
        (map (\<lambda>kv. (9, Bytes (Marshal_KeyValue kv))) (elems (Attributes s))) =
      Some (m\<lparr>Attributes := unset_if_empty (Attributes s)\<rparr>)" if "Attributes m = None" for m
  proof -
    have "fold_fields set_Span m
        (map (\<lambda>kv. (9, Bytes (Marshal_KeyValue kv))) (elems (Attributes s))) =
        Some (foldl ?app m (map (\<lambda>kv. kv) (elems (Attributes s))))"
      by (rule fold_repeated) (rule each)
    then show ?thesis
      unfolding list.map_ident foldl_append_Span_unset [OF that] by simp
  qed
  have "(15, Bytes (Marshal_Status (Status s))) \<in> set (fields_Span s)"
    by (simp add: fields_Span_def)
  from payload_le_fields [OF this] fit have "length (Marshal_Status (Status s)) < 2 ^ 63"
    by (simp add: Marshal_Span_def)
  then have status: "Unmarshal_Status zero_Status (Marshal_Status (Status s)) = Some (Status s)"
    by (rule roundtrip_Status)
  have f1: "fold_fields set_Span m (id_field (Suc 0) 16 (TraceId s)) = Some (m\<lparr>TraceId := TraceId s\<rparr>)"
    for m
    using wf by (simp add: id_field_def set_Span_def wf_Span_def get_id_field)
  have f2: "fold_fields set_Span m (id_field 2 8 (SpanId s)) = Some (m\<lparr>SpanId := SpanId s\<rparr>)"
    for m
    using wf by (simp add: id_field_def set_Span_def wf_Span_def get_id_field)
  have f5: "fold_fields set_Span m (string_field 5 n) = Some (m\<lparr>SpanName := n\<rparr>)"
    if "SpanName m = []" for m n
    using that by (cases m) (simp add: string_field_def set_Span_def)
  have f6: "fold_fields set_Span m (enum_field 6 k) = Some (m\<lparr>Kind := k\<rparr>)"
    if "Kind m = 0" for m k
    using that by (cases m) (simp add: enum_field_def set_Span_def)
  have f7: "fold_fields set_Span m (fixed64_field 7 v) = Some (m\<lparr>StartTimeUnixNano := v\<rparr>)"
    if "StartTimeUnixNano m = 0" for m v
    using that by (cases m) (simp add: fixed64_field_def set_Span_def)
  have f8: "fold_fields set_Span m (fixed64_field 8 v) = Some (m\<lparr>EndTimeUnixNano := v\<rparr>)"
    if "EndTimeUnixNano m = 0" for m v
    using that by (cases m) (simp add: fixed64_field_def set_Span_def)
  have f15: "set_Span m 15 (Bytes (Marshal_Status (Status s))) =
      Some (m\<lparr>Status := Status s\<rparr>)" if "Status m = zero_Status" for m
    using that by (simp add: set_Span_def status)
  have "Unmarshal_Span zero_Span (Marshal_Span s) = fold_fields set_Span zero_Span (fields_Span s)"
    unfolding Unmarshal_Span_def Marshal_Span_def
    using fit nums_Span
    by (intro Unmarshal_with_fit) (simp_all add: Marshal_Span_def)
  also have "\<dots> = Some (zero_Span\<lparr>TraceId := TraceId s, SpanId := SpanId s,
      SpanName := SpanName s, Kind := Kind s, StartTimeUnixNano := StartTimeUnixNano s,
      EndTimeUnixNano := EndTimeUnixNano s, Attributes := unset_if_empty (Attributes s),
      Status := Status s\<rparr>)"
    unfolding fields_Span_def fold_fields_append
    by (simp add: f1 f2 f5 f6 f7 f8 f15 attrs zero_Span_def)
  also have "\<dots> = Some (unset_empty_Span s)"
    by (cases s) (simp add: zero_Span_def unset_empty_Span_def)
  finally show ?thesis .
qed

lemma unset_if_empty_map [simp]:
  "unset_if_empty (Some (map f (elems s))) = unset_if_empty (map_option (map f) s)"
  by (cases s) (simp_all add: unset_if_empty_def elems_def)

lemma nums_ILS:
  "\<forall>f \<in> set (fields_InstrumentationLibrarySpans ils). 0 < fst f \<and> fst f < 2 ^ 29"
  by (auto simp: fields_InstrumentationLibrarySpans_def)

lemma foldl_append_ILS:
  "foldl (\<lambda>m s. m\<lparr>Spans := Some (elems (Spans m) @ [s])\<rparr>) m ss =
     (if ss = [] then m else m\<lparr>Spans := Some (elems (Spans m) @ ss)\<rparr>)"
  by (induction ss arbitrary: m) (simp_all add: elems_def)

lemma foldl_append_ILS_unset:
  "Spans m = None \<Longrightarrow>
   foldl (\<lambda>m s. m\<lparr>Spans := Some (elems (Spans m) @ [s])\<rparr>) m ss =
     m\<lparr>Spans := unset_if_empty (Some ss)\<rparr>"
  unfolding foldl_append_ILS
  by (cases m) (simp add: unset_if_empty_def elems_def)

lemma roundtrip_ILS:
  assumes fit: "length (Marshal_InstrumentationLibrarySpans ils) < 2 ^ 63"
    and wf: "wf_InstrumentationLibrarySpans ils"
  shows "Unmarshal_InstrumentationLibrarySpans zero_InstrumentationLibrarySpans
           (Marshal_InstrumentationLibrarySpans ils) =
         Some (unset_empty_InstrumentationLibrarySpans ils)"
proof -
  let ?app = "\<lambda>m s. m\<lparr>Spans := Some (elems (Spans m) @ [s])\<rparr>"
  have each: "set_InstrumentationLibrarySpans m 2 (Bytes (Marshal_Span s)) =
      Some (?app m (unset_empty_Span s))"
    if "s \<in> set (elems (Spans ils))" for m s
  proof -
    from that have "(2, Bytes (Marshal_Span s)) \<in> set (fields_InstrumentationLibrarySpans ils)"
      by (auto simp: fields_InstrumentationLibrarySpans_def)
    from payload_le_fields [OF this] fit have "length (Marshal_Span s) < 2 ^ 63"
      by (simp add: Marshal_InstrumentationLibrarySpans_def)
    moreover from that wf have "wf_Span s"
      by (simp add: wf_InstrumentationLibrarySpans_def list_all_iff)
    ultimately have "Unmarshal_Span zero_Span (Marshal_Span s) = Some (unset_empty_Span s)"
      by (rule roundtrip_Span)
    then show ?thesis
      by (simp add: set_InstrumentationLibrarySpans_def)
  qed
  have rep: "fold_fields set_InstrumentationLibrarySpans m
        (map (\<lambda>s. (2, Bytes (Marshal_Span s))) (elems (Spans ils))) =
      Some (m\<lparr>Spans := unset_if_empty (map_option (map unset_empty_Span) (Spans ils))\<rparr>)"
    if "Spans m = None" for m
  proof -
    have "fold_fields set_InstrumentationLibrarySpans m
        (map (\<lambda>s. (2, Bytes (Marshal_Span s))) (elems (Spans ils))) =
        Some (foldl ?app m (map unset_empty_Span (elems (Spans ils))))"
      by (rule fold_repeated) (rule each)
    then show ?thesis
      unfolding foldl_append_ILS_unset [OF that] by simp
  qed
  have "(1, Bytes (Marshal_InstrumentationLibrary (InstrumentationLibrary ils)))
      \<in> set (fields_InstrumentationLibrarySpans ils)"
    by (simp add: fields_InstrumentationLibrarySpans_def)
  from payload_le_fields [OF this] fit
  have "length (Marshal_InstrumentationLibrary (InstrumentationLibrary ils)) < 2 ^ 63"
    by (simp add: Marshal_InstrumentationLibrarySpans_def)
  then have il: "Unmarshal_InstrumentationLibrary zero_InstrumentationLibrary
      (Marshal_InstrumentationLibrary (InstrumentationLibrary ils)) =
      Some (InstrumentationLibrary ils)"
    by (rule roundtrip_InstrumentationLibrary)
  have f1: "set_InstrumentationLibrarySpans m (Suc 0)
        (Bytes (Marshal_InstrumentationLibrary (InstrumentationLibrary ils))) =
      Some (m\<lparr>InstrumentationLibrary := InstrumentationLibrary ils\<rparr>)"
    if "InstrumentationLibrary m = zero_InstrumentationLibrary" for m
    using that by (simp add: set_InstrumentationLibrarySpans_def il)
  have "Unmarshal_InstrumentationLibrarySpans zero_InstrumentationLibrarySpans
          (Marshal_InstrumentationLibrarySpans ils) =
      fold_fields set_InstrumentationLibrarySpans zero_InstrumentationLibrarySpans
        (fields_InstrumentationLibrarySpans ils)"
    unfolding Unmarshal_InstrumentationLibrarySpans_def Marshal_InstrumentationLibrarySpans_def
    using fit nums_ILS
    by (intro Unmarshal_with_fit) (simp_all add: Marshal_InstrumentationLibrarySpans_def)
  also have "\<dots> = Some (zero_InstrumentationLibrarySpans
      \<lparr>InstrumentationLibrary := InstrumentationLibrary ils,
       Spans := unset_if_empty (map_option (map unset_empty_Span) (Spans ils))\<rparr>)"
    unfolding fields_InstrumentationLibrarySpans_def fold_fields_append
    by (simp add: f1 rep zero_InstrumentationLibrarySpans_def)
  also have "\<dots> = Some (unset_empty_InstrumentationLibrarySpans ils)"
    by (cases ils)
      (simp add: zero_InstrumentationLibrarySpans_def unset_empty_InstrumentationLibrarySpans_def)
  finally show ?thesis .
qed

lemma nums_RS: "\<forall>f \<in> set (fields_ResourceSpans rs). 0 < fst f \<and> fst f < 2 ^ 29"
  by (auto simp: fields_ResourceSpans_def)

lemma foldl_append_RS:
  "foldl (\<lambda>m x. m\<lparr>InstrumentationLibrarySpans :=
                    Some (elems (InstrumentationLibrarySpans m) @ [x])\<rparr>) m xs =
     (if xs = [] then m
      else m\<lparr>InstrumentationLibrarySpans := Some (elems (InstrumentationLibrarySpans m) @ xs)\<rparr>)"
  by (induction xs arbitrary: m) (simp_all add: elems_def)

lemma foldl_append_RS_unset:
  "InstrumentationLibrarySpans m = None \<Longrightarrow>
   foldl (\<lambda>m x. m\<lparr>InstrumentationLibrarySpans :=
                    Some (elems (InstrumentationLibrarySpans m) @ [x])\<rparr>) m xs =
     m\<lparr>InstrumentationLibrarySpans := unset_if_empty (Some xs)\<rparr>"
  unfolding foldl_append_RS
  by (cases m) (simp add: unset_if_empty_def elems_def)

lemma roundtrip_RS:
  assumes fit: "length (Marshal_ResourceSpans rs) < 2 ^ 63"
    and wf: "wf_ResourceSpans rs"
  shows "Unmarshal_ResourceSpans zero_ResourceSpans (Marshal_ResourceSpans rs) =
         Some (unset_empty_ResourceSpans rs)"
proof -
  let ?app = "\<lambda>m x. m\<lparr>InstrumentationLibrarySpans :=
                        Some (elems (InstrumentationLibrarySpans m) @ [x])\<rparr>"
  have each: "set_ResourceSpans m 2 (Bytes (Marshal_InstrumentationLibrarySpans x)) =
      Some (?app m (unset_empty_InstrumentationLibrarySpans x))"
    if "x \<in> set (elems (InstrumentationLibrarySpans rs))" for m x
  proof -
    from that have "(2, Bytes (Marshal_InstrumentationLibrarySpans x))
        \<in> set (fields_ResourceSpans rs)"
      by (auto simp: fields_ResourceSpans_def)
    from payload_le_fields [OF this] fit
    have "length (Marshal_InstrumentationLibrarySpans x) < 2 ^ 63"
      by (simp add: Marshal_ResourceSpans_def)
    moreover from that wf have "wf_InstrumentationLibrarySpans x"
      by (simp add: wf_ResourceSpans_def list_all_iff)
    ultimately have "Unmarshal_InstrumentationLibrarySpans zero_InstrumentationLibrarySpans
        (Marshal_InstrumentationLibrarySpans x) =
        Some (unset_empty_InstrumentationLibrarySpans x)"
      by (rule roundtrip_ILS)
    then show ?thesis
      by (simp add: set_ResourceSpans_def)
  qed
  have rep: "fold_fields set_ResourceSpans m
        (map (\<lambda>ils. (2, Bytes (Marshal_InstrumentationLibrarySpans ils)))
          (elems (InstrumentationLibrarySpans rs))) =
      Some (m\<lparr>InstrumentationLibrarySpans :=
        unset_if_empty (map_option (map unset_empty_InstrumentationLibrarySpans)
          (InstrumentationLibrarySpans rs))\<rparr>)"
    if "InstrumentationLibrarySpans m = None" for m
  proof -
    have "fold_fields set_ResourceSpans m
        (map (\<lambda>ils. (2, Bytes (Marshal_InstrumentationLibrarySpans ils)))
          (elems (InstrumentationLibrarySpans rs))) =
        Some (foldl ?app m (map unset_empty_InstrumentationLibrarySpans
          (elems (InstrumentationLibrarySpans rs))))"
      by (rule fold_repeated) (rule each)
    then show ?thesis
      unfolding foldl_append_RS_unset [OF that] by simp
  qed
  have "(1, Bytes (Marshal_Resource (Resource rs))) \<in> set (fields_ResourceSpans rs)"
    by (simp add: fields_ResourceSpans_def)
  from payload_le_fields [OF this] fit
  have "length (Marshal_Resource (Resource rs)) < 2 ^ 63"
    by (simp add: Marshal_ResourceSpans_def)
  then have r: "Unmarshal_Resource zero_Resource (Marshal_Resource (Resource rs)) =
      Some (unset_empty_Resource (Resource rs))"
    by (rule roundtrip_Resource)
  have f1: "set_ResourceSpans m (Suc 0) (Bytes (Marshal_Resource (Resource rs))) =
      Some (m\<lparr>Resource := unset_empty_Resource (Resource rs)\<rparr>)"
    if "Resource m = zero_Resource" for m
    using that by (simp add: set_ResourceSpans_def r)
  have "Unmarshal_ResourceSpans zero_ResourceSpans (Marshal_ResourceSpans rs) =
      fold_fields set_ResourceSpans zero_ResourceSpans (fields_ResourceSpans rs)"
    unfolding Unmarshal_ResourceSpans_def Marshal_ResourceSpans_def
    using fit nums_RS
    by (intro Unmarshal_with_fit) (simp_all add: Marshal_ResourceSpans_def)
  also have "\<dots> = Some (zero_ResourceSpans
      \<lparr>Resource := unset_empty_Resource (Resource rs),
       InstrumentationLibrarySpans :=
         unset_if_empty (map_option (map unset_empty_InstrumentationLibrarySpans)
           (InstrumentationLibrarySpans rs))\<rparr>)"
    unfolding fields_ResourceSpans_def fold_fields_append
    by (simp add: f1 rep zero_ResourceSpans_def)
  also have "\<dots> = Some (unset_empty_ResourceSpans rs)"
    by (cases rs) (simp add: zero_ResourceSpans_def unset_empty_ResourceSpans_def)
  finally show ?thesis .
qed

lemma nums_Request: "\<forall>f \<in> set (fields_Request req). 0 < fst f \<and> fst f < 2 ^ 29"
  by (auto simp: fields_Request_def)

lemma foldl_append_Request:
  "foldl (\<lambda>m x. m\<lparr>ResourceSpans := Some (elems (ResourceSpans m) @ [x])\<rparr>) m xs =
     (if xs = [] then m else m\<lparr>ResourceSpans := Some (elems (ResourceSpans m) @ xs)\<rparr>)"
  by (induction xs arbitrary: m) (simp_all add: elems_def)

lemma foldl_append_Request_unset:
  "foldl (\<lambda>m x. m\<lparr>ResourceSpans := Some (elems (ResourceSpans m) @ [x])\<rparr>)
     \<lparr>ResourceSpans = None\<rparr> xs = \<lparr>ResourceSpans = unset_if_empty (Some xs)\<rparr>"
  unfolding foldl_append_Request
  by (simp add: unset_if_empty_def elems_def)

lemma roundtrip_Request:
  assumes fit: "length (fst (Request_Marshal req)) < 2 ^ 63"
    and wf: "wf_Request req"
  shows "Request_Unmarshal \<lparr>ResourceSpans = None\<rparr> (fst (Request_Marshal req)) = (unset_empty req, None)"
proof -
  let ?app = "\<lambda>m x. m\<lparr>ResourceSpans := Some (elems (ResourceSpans m) @ [x])\<rparr>"
  from fit have fit': "length (put_fields (fields_Request req)) < 2 ^ 63"
    by (simp add: Request_Marshal_def)
  have each: "set_Request m 1 (Bytes (Marshal_ResourceSpans x)) =
      Some (?app m (unset_empty_ResourceSpans x))"
    if "x \<in> set (elems (ResourceSpans req))" for m x
  proof -
    from that have "(1, Bytes (Marshal_ResourceSpans x)) \<in> set (fields_Request req)"
      by (auto simp: fields_Request_def)
    from payload_le_fields [OF this] fit' have "length (Marshal_ResourceSpans x) < 2 ^ 63"
      by simp
    moreover from that wf have "wf_ResourceSpans x"
      by (simp add: wf_Request_def list_all_iff)
    ultimately have "Unmarshal_ResourceSpans zero_ResourceSpans (Marshal_ResourceSpans x) =
        Some (unset_empty_ResourceSpans x)"
      by (rule roundtrip_RS)
    then show ?thesis
      by (simp add: set_Request_def)
  qed
  have "Unmarshal_with set_Request \<lparr>ResourceSpans = None\<rparr> (put_fields (fields_Request req)) =
      fold_fields set_Request \<lparr>ResourceSpans = None\<rparr> (fields_Request req)"
    using fit' nums_Request by (intro Unmarshal_with_fit) simp_all
  also have "\<dots> = Some (foldl ?app \<lparr>ResourceSpans = None\<rparr>
      (map unset_empty_ResourceSpans (elems (ResourceSpans req))))"
    unfolding fields_Request_def by (rule fold_repeated) (rule each)
  also have "\<dots> = Some (unset_empty req)"
    unfolding foldl_append_Request_unset
    by (cases req) (simp add: unset_empty_def)
  finally show ?thesis
    by (simp add: Request_Unmarshal_def Request_Marshal_def)
qed

lemmas Marshal_defs =
  Request_Marshal_def fields_Request_def
  Marshal_ResourceSpans_def fields_ResourceSpans_def Marshal_Resource_def fields_Resource_def
  Marshal_InstrumentationLibrarySpans_def fields_InstrumentationLibrarySpans_def
  Marshal_InstrumentationLibrary_def fields_InstrumentationLibrary_def
  Marshal_Span_def fields_Span_def Marshal_Status_def fields_Status_def
  Marshal_KeyValue_def fields_KeyValue_def Marshal_AnyValue_def fields_AnyValue_def
  string_field_def enum_field_def fixed64_field_def id_field_def
  put_fields_def put_field_def wireType_def

text \<open>
  C1 as stated does not hold: an empty sequence and an absent one have the same
  encoding, no bytes at all, so the decoder cannot tell them apart. A request whose
  \<open>ResourceSpans\<close> is present and empty is well-formed, encodes to the empty byte
  string, and decodes to the request whose \<open>ResourceSpans\<close> is absent.
\<close>

theorem roundtrip_loses_empty_sequence:
  "wf_Request \<lparr>ResourceSpans = Some []\<rparr> \<and>
   ToOtlpProtoBytes Request_Marshal \<lparr>orig = Some \<lparr>ResourceSpans = Some []\<rparr>\<rparr> = Inr ([], None) \<and>
   TracesFromOtlpProtoBytes Request_Unmarshal [] = (\<lparr>orig = Some \<lparr>ResourceSpans = None\<rparr>\<rparr>, None) \<and>
   \<lparr>orig = Some \<lparr>ResourceSpans = None\<rparr>\<rparr> \<noteq> \<lparr>orig = Some \<lparr>ResourceSpans = Some []\<rparr>\<rparr>"
  by (simp add: wf_Request_def ToOtlpProtoBytes_def TracesFromOtlpProtoBytes_def Request_Marshal_def
      Request_Unmarshal_def Unmarshal_with_def fields_Request_def put_fields_def elems_def
      get_fields.simps)

text \<open>
  C1, amended. For every well-formed tree whose encoding is shorter than \<open>2^63\<close>
  bytes (a length that fits a Go \<open>int\<close>), \<open>ToOtlpProtoBytes\<close> succeeds, and
  \<open>TracesFromOtlpProtoBytes\<close> on its bytes succeeds and yields the tree with every
  empty sequence unset and all else equal. So the result is structurally equal to the
  tree exactly when no sequence in it is present and empty; the distinction between an
  empty and an absent sequence is not preserved.
\<close>

theorem roundtrip_unsets_empty:
  assumes "orig td = Some req" and "wf_Request req" and "length (fst (Request_Marshal req)) < 2 ^ 63"
  shows "\<exists>data. ToOtlpProtoBytes Request_Marshal td = Inr (data, None) \<and>
           TracesFromOtlpProtoBytes Request_Unmarshal data = (\<lparr>orig = Some (unset_empty req)\<rparr>, None) \<and>
           (unset_empty req = req \<longrightarrow> TracesFromOtlpProtoBytes Request_Unmarshal data = (td, None))"
proof -
  have td: "td = \<lparr>orig = Some req\<rparr>"
    using assms(1) by (cases td) simp
  have m: "ToOtlpProtoBytes Request_Marshal td = Inr (fst (Request_Marshal req), None)"
    by (simp add: ToOtlpProtoBytes_def assms(1) Request_Marshal_def)
  from roundtrip_Request [OF assms(3) assms(2)]
  have u: "TracesFromOtlpProtoBytes Request_Unmarshal (fst (Request_Marshal req)) =
      (\<lparr>orig = Some (unset_empty req)\<rparr>, None)"
    by (simp add: TracesFromOtlpProtoBytes_def)
  from m u td show ?thesis
    by auto
qed

text \<open>
  The amended round trip at a request of one span with status code \<open>ERROR\<close>: its
  eighteen bytes decode to the request itself, which holds no empty sequence.
\<close>

theorem roundtrip_unsets_empty_witness:
  "orig \<lparr>orig = Some (req_of [span_with 2 0])\<rparr> = Some (req_of [span_with 2 0]) \<and>
   wf_Request (req_of [span_with 2 0]) \<and>
   length (fst (Request_Marshal (req_of [span_with 2 0]))) < 2 ^ 63 \<and>
   unset_empty (req_of [span_with 2 0]) = req_of [span_with 2 0] \<and>
   ToOtlpProtoBytes Request_Marshal \<lparr>orig = Some (req_of [span_with 2 0])\<rparr> =
     Inr ([10, 16, 10, 0, 18, 12, 10, 0, 18, 8, 10, 0, 18, 0, 122, 2, 24, 2], None) \<and>
   TracesFromOtlpProtoBytes Request_Unmarshal
       [10, 16, 10, 0, 18, 12, 10, 0, 18, 8, 10, 0, 18, 0, 122, 2, 24, 2] =
     (\<lparr>orig = Some (req_of [span_with 2 0])\<rparr>, None)"
proof -
  let ?req = "req_of [span_with 2 0]"
  let ?td = "\<lparr>orig = Some ?req\<rparr>"
  have bytes: "fst (Request_Marshal ?req) =
      [10, 16, 10, 0, 18, 12, 10, 0, 18, 8, 10, 0, 18, 0, 122, 2, 24, 2]"
    by (simp add: Marshal_defs req_of_def elems_def span_with_def zero_Span_def zero_Status_def
        put_uvarint.simps)
  have wf: "wf_Request ?req"
    by (simp add: wf_Request_def wf_ResourceSpans_def wf_InstrumentationLibrarySpans_def
        wf_Span_def req_of_def elems_def span_with_def zero_Span_def)
  have len: "length (fst (Request_Marshal ?req)) < 2 ^ 63"
    unfolding bytes by simp
  have same: "unset_empty ?req = ?req"
    by (simp add: unset_empty_def unset_empty_ResourceSpans_def
        unset_empty_InstrumentationLibrarySpans_def unset_empty_Span_def unset_empty_Resource_def
        unset_if_empty_def elems_def req_of_def span_with_def zero_Span_def)
  have enc: "ToOtlpProtoBytes Request_Marshal ?td = Inr (fst (Request_Marshal ?req), None)"
    by (simp add: ToOtlpProtoBytes_def Request_Marshal_def)
  from roundtrip_unsets_empty [of ?td ?req, OF _ wf len]
  obtain data where d: "ToOtlpProtoBytes Request_Marshal ?td = Inr (data, None)"
      "TracesFromOtlpProtoBytes Request_Unmarshal data = (\<lparr>orig = Some (unset_empty ?req)\<rparr>, None)"
    by auto
  from d(1) enc have "data = fst (Request_Marshal ?req)"
    by simp
  with d(2) same bytes enc wf len show ?thesis
    by simp
qed

end
